theory Spec2Isabelle
  imports Complex_Main
begin

section \<open>Strings: the helpers of Go's \<^verbatim>\<open>strings\<close> package used by the parser\<close>

text \<open>
  Go strings are byte sequences; they are modelled as \<^typ>\<open>string\<close> (a list of 8-bit
  characters).  \<open>cut sep s\<close> finds the first occurrence of \<open>sep\<close> in \<open>s\<close> and returns the
  text before and after it; \<^verbatim>\<open>strings.SplitN(s, sep, 2)\<close> with a non-empty separator
  returns \<^verbatim>\<open>[s]\<close> when \<open>sep\<close> does not occur and the two halves around the first
  occurrence otherwise.
\<close>

fun is_prefix :: "string \<Rightarrow> string \<Rightarrow> bool" where
  "is_prefix [] s = True"
| "is_prefix (p # ps) [] = False"
| "is_prefix (p # ps) (c # cs) = (p = c \<and> is_prefix ps cs)"

fun cut :: "string \<Rightarrow> string \<Rightarrow> (string \<times> string) option" where
  "cut sep [] = (if sep = [] then Some ([], []) else None)"
| "cut sep (c # cs) =
     (if is_prefix sep (c # cs) then Some ([], drop (length sep) (c # cs))
      else (case cut sep cs of None \<Rightarrow> None | Some (b, a) \<Rightarrow> Some (c # b, a)))"

definition SplitN2 :: "string \<Rightarrow> string \<Rightarrow> string list" where
  "SplitN2 s sep = (case cut sep s of None \<Rightarrow> [s] | Some (b, a) \<Rightarrow> [b, a])"

text \<open>
  \<^verbatim>\<open>strings.Split(s, ":")\<close>: the pieces of \<open>s\<close> between all occurrences of the
  one-byte separator; there is always at least one piece.
\<close>

fun Split1 :: "string \<Rightarrow> char \<Rightarrow> string list" where
  "Split1 [] sep = [[]]"
| "Split1 (c # cs) sep =
     (if c = sep then [] # Split1 cs sep
      else (case Split1 cs sep of [] \<Rightarrow> [[c]] | p # ps \<Rightarrow> (c # p) # ps))"

section \<open>Time: the part of Go's \<^verbatim>\<open>time\<close> package the program uses\<close>

text \<open>
  A \<^verbatim>\<open>time.Time\<close> in UTC, kept as its civil fields.  Every value the program handles
  is either the zero value (January 1, year 1, 00:00:00 UTC) or the result of
  \<^verbatim>\<open>time.Parse\<close>, which validates the fields, so a record denotes one instant.
\<close>

record time =
  year :: int
  month :: int
  day :: int
  hour :: int
  minute :: int
  second :: int
  nsec :: int

definition zeroTime :: time where
  "zeroTime = \<lparr>year = 1, month = 1, day = 1, hour = 0, minute = 0, second = 0, nsec = 0\<rparr>"

definition isLeap :: "int \<Rightarrow> bool" where
  "isLeap y = (y mod 4 = 0 \<and> (y mod 100 \<noteq> 0 \<or> y mod 400 = 0))"

definition daysIn :: "int \<Rightarrow> int \<Rightarrow> int" where
  "daysIn m y =
     (if m = 2 then (if isLeap y then 29 else 28)
      else if m = 4 \<or> m = 6 \<or> m = 9 \<or> m = 11 then 30 else 31)"

definition daysBefore :: "int \<Rightarrow> int \<Rightarrow> int" where
  "daysBefore m y =
     (if m \<le> 1 then 0 else if m = 2 then 31
      else (if isLeap y then 1 else 0) +
        (if m = 3 then 59 else if m = 4 then 90 else if m = 5 then 120
         else if m = 6 then 151 else if m = 7 then 181 else if m = 8 then 212
         else if m = 9 then 243 else if m = 10 then 273 else if m = 11 then 304
         else 334))"

text \<open>Days from January 1 of year 1 to the given date (proleptic Gregorian calendar).\<close>

definition absDays :: "time \<Rightarrow> int" where
  "absDays t =
     (let y = year t - 1
      in 365 * y + y div 4 - y div 100 + y div 400 + daysBefore (month t) (year t)
         + (day t - 1))"

text \<open>Nanoseconds from the zero instant.\<close>

definition absNs :: "time \<Rightarrow> int" where
  "absNs t =
     (((absDays t * 24 + hour t) * 60 + minute t) * 60 + second t) * 1000000000 + nsec t"

definition Before :: "time \<Rightarrow> time \<Rightarrow> bool" where
  "Before t u = (absNs t < absNs u)"

definition After :: "time \<Rightarrow> time \<Rightarrow> bool" where
  "After t u = (absNs t > absNs u)"

definition Equal :: "time \<Rightarrow> time \<Rightarrow> bool" where
  "Equal t u = (absNs t = absNs u)"

text \<open>
  \<^verbatim>\<open>t.Sub(u)\<close> is a \<^verbatim>\<open>Duration\<close>, a signed 64-bit count of nanoseconds: the library
  returns the difference when it fits and the minimum or maximum duration otherwise.
  \<^verbatim>\<open>Milliseconds\<close> is the integer division of Go (truncating toward zero) by \<open>10\<^sup>6\<close>.
\<close>

definition minDuration :: int where
  "minDuration = - (2 ^ 63)"

definition maxDuration :: int where
  "maxDuration = 2 ^ 63 - 1"

definition Sub :: "time \<Rightarrow> time \<Rightarrow> int" where
  "Sub t u =
     (let d = absNs t - absNs u
      in if d < minDuration then minDuration
         else if d > maxDuration then maxDuration else d)"

definition Milliseconds :: "int \<Rightarrow> int" where
  "Milliseconds d = (if d < 0 then - ((- d) div 1000000) else d div 1000000)"

subsection \<open>\<^verbatim>\<open>time.Parse\<close> with the layout \<^verbatim>\<open>2006-01-02 15:04:05,000\<close>\<close>

definition isDigit :: "char \<Rightarrow> bool" where
  "isDigit c = (c \<in> set ''0123456789'')"

definition digitVal :: "char \<Rightarrow> int" where
  "digitVal c = int (of_char c) - 48"

fun decimal :: "int \<Rightarrow> string \<Rightarrow> int" where
  "decimal acc [] = acc"
| "decimal acc (c # cs) = decimal (acc * 10 + digitVal c) cs"

text \<open>
  The library's \<^verbatim>\<open>atoi\<close>: an optional sign, then digits only (anything else left
  over is an error).
\<close>

definition atoi :: "string \<Rightarrow> int option" where
  "atoi s =
     (let neg = (s \<noteq> [] \<and> hd s = CHR ''-'');
          r = (if s \<noteq> [] \<and> (hd s = CHR ''-'' \<or> hd s = CHR ''+'') then tl s else s)
      in if list_all isDigit r
         then Some (if neg then - decimal 0 r else decimal 0 r) else None)"

text \<open>
  The library's \<^verbatim>\<open>getnum\<close>: one or two leading digits; with \<open>fixed\<close> exactly two
  are required.  Returns the number and the rest of the text.
\<close>

fun getnum :: "string \<Rightarrow> bool \<Rightarrow> (int \<times> string) option" where
  "getnum [] fixed = None"
| "getnum [c] fixed = (if isDigit c \<and> \<not> fixed then Some (digitVal c, []) else None)"
| "getnum (c # d # r) fixed =
     (if \<not> isDigit c then None
      else if \<not> isDigit d then (if fixed then None else Some (digitVal c, d # r))
      else Some (digitVal c * 10 + digitVal d, r))"

text \<open>
  The library's \<^verbatim>\<open>skip\<close> for one byte of literal layout text: a space of the layout
  matches any run of spaces of the value (also none, at the end of the value); any other
  byte matches itself.
\<close>

definition skipByte :: "char \<Rightarrow> string \<Rightarrow> string option" where
  "skipByte p v =
     (if p = CHR '' '' then
        (if v \<noteq> [] \<and> hd v \<noteq> CHR '' '' then None
         else Some (dropWhile (\<lambda>c. c = CHR '' '') v))
      else if v = [] \<or> hd v \<noteq> p then None else Some (tl v))"

text \<open>The four-digit year: four bytes, the first a digit, all read by \<^verbatim>\<open>atoi\<close>.\<close>

definition getYear :: "string \<Rightarrow> (int \<times> string) option" where
  "getYear v =
     (if length v < 4 \<or> \<not> isDigit (hd v) then None
      else (case atoi (take 4 v) of None \<Rightarrow> None | Some y \<Rightarrow> Some (y, drop 4 v)))"

text \<open>
  The fractional second \<^verbatim>\<open>,000\<close>: a comma or a period and exactly three more bytes,
  read by \<^verbatim>\<open>atoi\<close> (so a sign is let through); a negative value is out of range.
  The result is in nanoseconds.
\<close>

definition getFrac :: "string \<Rightarrow> (int \<times> string) option" where
  "getFrac v =
     (if length v < 4 then None
      else if hd v \<noteq> CHR '','' \<and> hd v \<noteq> CHR ''.'' then None
      else (case atoi (take 3 (tl v)) of
              None \<Rightarrow> None
            | Some n \<Rightarrow> if n < 0 then None else Some (n * 1000000, drop 4 v)))"

text \<open>
  The chunks of the layout in order.  A month, hour, minute or second out of range ends
  the parse at once; the day is checked against the month's length at the end.
\<close>

definition getRanged :: "string \<Rightarrow> bool \<Rightarrow> int \<Rightarrow> int \<Rightarrow> (int \<times> string) option" where
  "getRanged v fixed lo hi =
     Option.bind (getnum v fixed)
       (\<lambda>(n, r). if n < lo \<or> hi < n then None else Some (n, r))"

definition parseDate :: "string \<Rightarrow> ((int \<times> int \<times> int) \<times> string) option" where
  "parseDate v0 =
     Option.bind (getYear v0) (\<lambda>(y, v1).
     Option.bind (skipByte (CHR ''-'') v1) (\<lambda>v2.
     Option.bind (getRanged v2 True 1 12) (\<lambda>(mo, v3).
     Option.bind (skipByte (CHR ''-'') v3) (\<lambda>v4.
     Option.bind (getnum v4 True) (\<lambda>(d, v5). Some ((y, mo, d), v5))))))"

definition parseClock :: "string \<Rightarrow> ((int \<times> int \<times> int) \<times> string) option" where
  "parseClock v6 =
     Option.bind (getRanged v6 False 0 23) (\<lambda>(h, v7).
     Option.bind (skipByte (CHR '':'') v7) (\<lambda>v8.
     Option.bind (getRanged v8 True 0 59) (\<lambda>(mi, v9).
     Option.bind (skipByte (CHR '':'') v9) (\<lambda>v10.
     Option.bind (getRanged v10 True 0 59) (\<lambda>(s, v11). Some ((h, mi, s), v11))))))"

definition time_Parse :: "string \<Rightarrow> time option" where
  "time_Parse v0 =
     Option.bind (parseDate v0) (\<lambda>((y, mo, d), v5).
     Option.bind (skipByte (CHR '' '') v5) (\<lambda>v6.
     Option.bind (parseClock v6) (\<lambda>((h, mi, s), v11).
     Option.bind (getFrac v11) (\<lambda>(ns, v12).
       if v12 \<noteq> [] then None
       else if d < 1 \<or> d > daysIn mo y then None
       else Some \<lparr>year = y, month = mo, day = d, hour = h, minute = mi, second = s,
                  nsec = ns\<rparr>))))"

subsection \<open>\<^verbatim>\<open>Time.String\<close>: the layout \<^verbatim>\<open>2006-01-02 15:04:05.999999999 -0700 MST\<close>\<close>

fun digits :: "nat \<Rightarrow> string" where
  "digits n =
     (if n < 10 then [''0123456789'' ! n]
      else digits (n div 10) @ [''0123456789'' ! (n mod 10)])"

declare digits.simps [simp del]

text \<open>The library's \<^verbatim>\<open>appendInt\<close>: a sign if negative, zero-padded to the width.\<close>

definition appendInt :: "int \<Rightarrow> nat \<Rightarrow> string" where
  "appendInt x width =
     (let ds = digits (nat \<bar>x\<bar>)
      in (if x < 0 then ''-'' else '''') @ replicate (width - length ds) (CHR ''0'') @ ds)"

fun trimZeros :: "string \<Rightarrow> string" where
  "trimZeros [] = []"
| "trimZeros (c # cs) =
     (let r = trimZeros cs in if r = [] \<and> c = CHR ''0'' then [] else c # r)"

text \<open>
  The library's \<^verbatim>\<open>appendNano\<close> for \<^verbatim>\<open>.999999999\<close>: nothing when the nanoseconds
  are zero, otherwise a period and nine digits without the trailing zeros.
\<close>

definition appendNano :: "int \<Rightarrow> string" where
  "appendNano n = (if n = 0 then [] else CHR ''.'' # trimZeros (appendInt n 9))"

definition time_String :: "time \<Rightarrow> string" where
  "time_String t =
     appendInt (year t) 4 @ ''-'' @ appendInt (month t) 2 @ ''-'' @ appendInt (day t) 2
     @ '' '' @ appendInt (hour t) 2 @ '':'' @ appendInt (minute t) 2 @ '':''
     @ appendInt (second t) 2 @ appendNano (nsec t) @ '' +0000 UTC''"

section \<open>The log line (logline.go)\<close>

record LogLine =
  processID :: string
  threadID :: string
  threadName :: string
  timestamp :: time
  message :: string

text \<open>
  The errors of the package: the parse error, bare or wrapping the message of
  \<^verbatim>\<open>time.Parse\<close>; "invalid start of thread logs"; a failure of \<^verbatim>\<open>os.OpenFile\<close> on a
  path; an error of \<^verbatim>\<open>initialize\<close> wrapped by \<^verbatim>\<open>Write\<close> ("error occurred while
  initializing log section"); a failed write to the file of a path; a failure of
  \<^verbatim>\<open>os.ReadDir\<close>; an error of the line scanner.
\<close>

datatype error =
    LogLineParseErr
  | LogLineParseErrWrapped
  | InvalidStart
  | OpenFileErr string
  | InitWrapped error
  | WriteErr string
  | ReadDirErr
  | ScanErr

text \<open>
  The four splits of \<^verbatim>\<open>ParseLogline\<close>, before the timestamp is parsed: the tokens
  process id, thread id, thread name, timestamp text and message.
\<close>

definition splitLogline :: "string \<Rightarrow> (string \<times> string \<times> string \<times> string \<times> string) option" where
  "splitLogline lineText =
     (case SplitN2 lineText ''::'' of
        [h, t] \<Rightarrow>
          (case Split1 h (CHR '':'') of
             [pid, thid] \<Rightarrow>
               (case SplitN2 t '' - '' of
                  [nameTs, msg] \<Rightarrow>
                    (case SplitN2 nameTs '' '' of
                       [thName, ts] \<Rightarrow> Some (pid, thid, thName, ts, msg)
                     | _ \<Rightarrow> None)
                | _ \<Rightarrow> None)
           | _ \<Rightarrow> None)
      | _ \<Rightarrow> None)"

definition ParseLogline :: "string \<Rightarrow> error + LogLine" where
  "ParseLogline lineText =
     (case splitLogline lineText of
        None \<Rightarrow> Inl LogLineParseErr
      | Some (pid, thid, thName, tsText, msg) \<Rightarrow>
          (case time_Parse tsText of
             None \<Rightarrow> Inl LogLineParseErrWrapped
           | Some ts \<Rightarrow>
               Inr \<lparr>processID = pid, threadID = thid, threadName = thName,
                    timestamp = ts, message = msg\<rparr>))"

text \<open>
  \<^verbatim>\<open>String\<close>: \<^verbatim>\<open>fmt.Sprintf("%s:%s::%s %v - %s", ...)\<close>; the verb \<^verbatim>\<open>%v\<close> prints
  a \<^verbatim>\<open>time.Time\<close> with its \<^verbatim>\<open>String\<close> method.
\<close>

definition String :: "LogLine \<Rightarrow> string" where
  "String ll =
     processID ll @ '':'' @ threadID ll @ ''::'' @ threadName ll @ '' ''
     @ time_String (timestamp ll) @ '' - '' @ message ll"

section \<open>The writer and its files (sync_log_writer.go)\<close>

definition mergeLogFilePath :: string where
  "mergeLogFilePath = ''./mergedlogs''"

definition mergeLogFileExtension :: string where
  "mergeLogFileExtension = ''log''"

definition threadLogsStartMarker :: string where
  "threadLogsStartMarker = ''**START**''"

definition threadLogsEndMarker :: string where
  "threadLogsEndMarker = ''**END**''"

subsection \<open>\<^verbatim>\<open>filepath.Join\<close> (Unix)\<close>

text \<open>
  \<^verbatim>\<open>filepath.Clean\<close> drops empty and \<^verbatim>\<open>.\<close> elements and resolves \<^verbatim>\<open>..\<close> against
  the element before it; \<open>cleanStep\<close> consumes one element, the elements kept so far
  being held last first.
\<close>

definition cleanStep :: "bool \<Rightarrow> string list \<Rightarrow> string \<Rightarrow> string list" where
  "cleanStep rooted st e =
     (if e = [] \<or> e = ''.'' then st
      else if e = ''..'' then
        (case st of
           [] \<Rightarrow> if rooted then [] else [''..'']
         | t # ts \<Rightarrow> if t = ''..'' then ''..'' # t # ts else ts)
      else e # st)"

fun joinSlash :: "string list \<Rightarrow> string" where
  "joinSlash [] = []"
| "joinSlash [e] = e"
| "joinSlash (e # f # es) = e @ ''/'' @ joinSlash (f # es)"

definition Clean :: "string \<Rightarrow> string" where
  "Clean path =
     (if path = [] then ''.''
      else
        let rooted = (hd path = CHR ''/'');
            body = joinSlash (rev (foldl (cleanStep rooted) [] (Split1 path (CHR ''/''))))
        in if rooted then ''/'' @ body else if body = [] then ''.'' else body)"

definition filepath_Join :: "string \<Rightarrow> string \<Rightarrow> string" where
  "filepath_Join a b =
     (if a = [] \<and> b = [] then []
      else if a = [] then Clean b
      else if b = [] then Clean a
      else Clean (a @ ''/'' @ b))"

subsection \<open>State\<close>

text \<open>
  \<^verbatim>\<open>logFd\<close> is the open file of the thread, named by the path it was opened at, or
  \<open>None\<close> for \<^verbatim>\<open>nil\<close>.  Two descriptors opened at one path are the same file.
\<close>

record threadFileMetadata =
  processId :: string
  logsStartTimestamp :: time
  logsEndTimestamp :: time
  logFd :: "string option"
  logFilepath :: string

record SyncLogWriter =
  threadsMetadata :: "string \<rightharpoonup> threadFileMetadata"

text \<open>
  The world a call runs in: the writer, the contents of the files by path, and the
  paths at which \<^verbatim>\<open>os.OpenFile\<close> fails (permissions, a missing directory).  A write to
  an open file is taken to succeed.
\<close>

record world =
  slw :: SyncLogWriter
  files :: "string \<rightharpoonup> string"
  openFails :: "string \<Rightarrow> bool"

definition content :: "world \<Rightarrow> string \<Rightarrow> string" where
  "content w p = (case files w p of None \<Rightarrow> [] | Some c \<Rightarrow> c)"

definition setMeta :: "world \<Rightarrow> string \<Rightarrow> threadFileMetadata \<Rightarrow> world" where
  "setMeta w k md = w\<lparr>slw := \<lparr>threadsMetadata = (threadsMetadata (slw w))(k \<mapsto> md)\<rparr>\<rparr>"

text \<open>\<^verbatim>\<open>NewLogWriter\<close>, after the output directory has been created.\<close>

definition NewLogWriter :: SyncLogWriter where
  "NewLogWriter = \<lparr>threadsMetadata = Map.empty\<rparr>"

subsection \<open>\<^verbatim>\<open>initialize\<close>, \<^verbatim>\<open>writeLogLine\<close>, \<^verbatim>\<open>Write\<close>\<close>

text \<open>
  \<^verbatim>\<open>os.OpenFile\<close> with \<^verbatim>\<open>O_RDWR|O_CREATE|O_APPEND\<close> creates the file empty when it
  does not exist and leaves an existing one as it is.  The new state is stored in the
  map under the thread id of the line and also returned.
\<close>

definition initialize :: "world \<Rightarrow> LogLine \<Rightarrow> (error + threadFileMetadata) \<times> world" where
  "initialize w ll =
     (if message ll \<noteq> threadLogsStartMarker then (Inl InvalidStart, w)
      else
        let filePath = filepath_Join mergeLogFilePath
              (processID ll @ ''-'' @ threadID ll @ ''.'' @ mergeLogFileExtension)
        in if openFails w filePath then (Inl (OpenFileErr filePath), w)
           else
             let thState = \<lparr>processId = processID ll, logsStartTimestamp = timestamp ll,
                            logsEndTimestamp = zeroTime, logFd = Some filePath,
                            logFilepath = filePath\<rparr>
             in (Inr thState,
                 setMeta (w\<lparr>files := (files w)(filePath \<mapsto> content w filePath)\<rparr>)
                   (threadID ll) thState))"

text \<open>
  \<^verbatim>\<open>writeLogLine\<close>: the pointer \<^verbatim>\<open>thState\<close> it is given is always the map's entry for
  the thread id of the line (\<^verbatim>\<open>Write\<close> is its only caller), so the assignments through
  the pointer update that entry.  A write through a \<^verbatim>\<open>nil\<close> file returns an error.
  With \<^verbatim>\<open>O_APPEND\<close> the bytes go to the end of the file.
\<close>

definition writeLogLine :: "world \<Rightarrow> LogLine \<Rightarrow> threadFileMetadata \<Rightarrow> error option \<times> world" where
  "writeLogLine w ll thState =
     (case logFd thState of
        None \<Rightarrow> (Some (WriteErr (logFilepath thState)), w)
      | Some fd \<Rightarrow>
          let msgWithLineBreak = String ll @ [CHR 0x0A];
              w1 = w\<lparr>files := (files w)(fd \<mapsto> content w fd @ msgWithLineBreak)\<rparr>
          in if message ll = threadLogsEndMarker
             then (None, setMeta w1 (threadID ll)
                     (thState\<lparr>logsEndTimestamp := timestamp ll, logFd := None\<rparr>))
             else (None, w1))"

definition Write :: "world \<Rightarrow> LogLine \<Rightarrow> error option \<times> world" where
  "Write w ll =
     (case threadsMetadata (slw w) (threadID ll) of
        Some thState \<Rightarrow> writeLogLine w ll thState
      | None \<Rightarrow>
          (case initialize w ll of
             (Inl err, w') \<Rightarrow> (Some (InitWrapped err), w')
           | (Inr thState, w') \<Rightarrow> writeLogLine w' ll thState))"

section \<open>Queries\<close>

text \<open>
  A \<^verbatim>\<open>range\<close> over a Go map visits every key once, in an order the language leaves
  open.  Each loop over a map therefore takes the order of its visit as a list of keys;
  the list of a real execution has no duplicates and holds exactly the keys of the map.
  A key of the list that the map does not hold is passed over.
\<close>

text \<open>
  Modelled from the spec: the declaration of \<^verbatim>\<open>ThreadInfo\<close> is not among the source
  files.  Its three fields are those \<^verbatim>\<open>GetActiveThreadCountBetweenInterval\<close> fills in,
  all strings: the output of Query A is a thread id, a process id and an output path.
\<close>

record ThreadInfo =
  ProcessID :: string
  ThreadId :: string
  ThreadFileName :: string

fun activeLoop ::
  "SyncLogWriter \<Rightarrow> time \<Rightarrow> time \<Rightarrow> string list \<Rightarrow> ThreadInfo list \<Rightarrow> ThreadInfo list" where
  "activeLoop s startTime endTime [] thList = thList"
| "activeLoop s startTime endTime (thID # ks) thList =
     (case threadsMetadata s thID of
        None \<Rightarrow> activeLoop s startTime endTime ks thList
      | Some thMetadata \<Rightarrow>
          if Before endTime (logsStartTimestamp thMetadata)
             \<or> After startTime (logsEndTimestamp thMetadata)
          then activeLoop s startTime endTime ks thList
          else activeLoop s startTime endTime ks
                 (thList @ [\<lparr>ProcessID = processId thMetadata, ThreadId = thID,
                             ThreadFileName = logFilepath thMetadata\<rparr>]))"

definition GetActiveThreadCountBetweenInterval ::
  "string list \<Rightarrow> SyncLogWriter \<Rightarrow> time \<Rightarrow> time \<Rightarrow> ThreadInfo list" where
  "GetActiveThreadCountBetweenInterval ks s startTime endTime =
     activeLoop s startTime endTime ks []"

text \<open>
  \<^verbatim>\<open>GetMaxConcurrencyAndEpoch\<close>.  \<open>innerLoop\<close> is the inner loop for one thread,
  counting into \<^verbatim>\<open>memo[thId]\<close>; \<open>memoLoop\<close> the outer loop, which fills \<^verbatim>\<open>memo\<close>
  (\<open>kin thId\<close> is the order of the inner visit for that thread); \<open>maxLoop\<close> the last
  loop, over \<^verbatim>\<open>memo\<close>.  The lookup \<^verbatim>\<open>slw.threadsMetadata[thId]\<close> of the last loop
  yields \<^verbatim>\<open>nil\<close> for a missing key and reading its field panics: the result \<open>None\<close>.
\<close>

definition startsWithin :: "threadFileMetadata \<Rightarrow> threadFileMetadata \<Rightarrow> bool" where
  "startsWithin thMetadataInner thMetadata =
     (Equal (logsStartTimestamp thMetadataInner) (logsStartTimestamp thMetadata)
      \<or> (After (logsStartTimestamp thMetadataInner) (logsStartTimestamp thMetadata)
          \<and> Before (logsStartTimestamp thMetadataInner) (logsEndTimestamp thMetadata)))"

fun innerLoop :: "SyncLogWriter \<Rightarrow> threadFileMetadata \<Rightarrow> string list \<Rightarrow> int \<Rightarrow> int" where
  "innerLoop s thMetadata [] c = c"
| "innerLoop s thMetadata (k # ks) c =
     (case threadsMetadata s k of
        None \<Rightarrow> innerLoop s thMetadata ks c
      | Some thMetadataInner \<Rightarrow>
          innerLoop s thMetadata ks
            (if startsWithin thMetadataInner thMetadata then c + 1 else c))"

fun memoLoop ::
  "SyncLogWriter \<Rightarrow> (string \<Rightarrow> string list) \<Rightarrow> string list \<Rightarrow> (string \<rightharpoonup> int)
     \<Rightarrow> (string \<rightharpoonup> int)" where
  "memoLoop s kin [] memo = memo"
| "memoLoop s kin (thId # ks) memo =
     (case threadsMetadata s thId of
        None \<Rightarrow> memoLoop s kin ks memo
      | Some thMetadata \<Rightarrow>
          memoLoop s kin ks (memo(thId \<mapsto> innerLoop s thMetadata (kin thId) 0)))"

fun maxLoop ::
  "SyncLogWriter \<Rightarrow> (string \<rightharpoonup> int) \<Rightarrow> string list \<Rightarrow> int \<times> time \<Rightarrow> (int \<times> time) option" where
  "maxLoop s memo [] acc = Some acc"
| "maxLoop s memo (thId # ks) (maxConcurrency, epoch) =
     (case memo thId of
        None \<Rightarrow> maxLoop s memo ks (maxConcurrency, epoch)
      | Some thCount \<Rightarrow>
          if thCount > maxConcurrency then
            (case threadsMetadata s thId of
               None \<Rightarrow> None
             | Some md \<Rightarrow> maxLoop s memo ks (thCount, logsStartTimestamp md))
          else maxLoop s memo ks (maxConcurrency, epoch))"

definition GetMaxConcurrencyAndEpoch ::
  "string list \<Rightarrow> (string \<Rightarrow> string list) \<Rightarrow> string list \<Rightarrow> SyncLogWriter
     \<Rightarrow> (int \<times> time) option" where
  "GetMaxConcurrencyAndEpoch ks kin km s =
     maxLoop s (memoLoop s kin ks Map.empty) km (0, zeroTime)"

subsection \<open>\<^verbatim>\<open>float64\<close>: rounding to the nearest value, ties to even\<close>

text \<open>
  A finite \<^verbatim>\<open>float64\<close> is kept as the real number it stands for.  Every operation
  used here gives the exact result rounded by \<open>round64\<close>: to 53 significant bits, a tie
  going to the even neighbour, with the fixed spacing \<open>2 powi - 1074\<close> below
  \<open>2 powi - 1022\<close>.  These are the conversion of an integer, \<open>+\<close>, \<open>-\<close>, \<open>/\<close>,
  \<^verbatim>\<open>math.Sqrt\<close>, and \<^verbatim>\<open>math.Pow(x, 2)\<close>: for the exponent 2 the library squares the
  fraction of \<open>x\<close> once, in one rounded multiplication, and scales the product by a
  power of two, which is \<open>x * x\<close> rounded.  \<^verbatim>\<open>NaN\<close> arises only from the quotient
  \<open>0 / 0\<close> of an empty map and is the value \<open>None\<close> of the query.  The sign of a zero
  is not kept.  Overflow to an infinity is left out: the values below are quotients,
  differences and squares of numbers of magnitude under \<open>2 ^ 64\<close>, summed over the keys
  of one map.
\<close>

definition roundEven :: "real \<Rightarrow> int" where
  "roundEven q =
     (let f = \<lfloor>q\<rfloor>
      in if q - of_int f < 1 / 2 then f
         else if q - of_int f > 1 / 2 then f + 1
         else if even f then f else f + 1)"

definition expo :: "real \<Rightarrow> int" where
  "expo x = max \<lfloor>log 2 \<bar>x\<bar>\<rfloor> (- 1022)"

definition round64 :: "real \<Rightarrow> real" where
  "round64 x =
     (if x = 0 then 0
      else of_int (roundEven (x / 2 powi (expo x - 52))) * 2 powi (expo x - 52))"

text \<open>
  The sum a loop accumulates in a \<^verbatim>\<open>float64\<close> that starts at 0: the terms are added
  from the left, and every addition is rounded.
\<close>

definition floatSum :: "real list \<Rightarrow> real" where
  "floatSum xs = foldl (\<lambda>acc x. round64 (acc + x)) 0 xs"

text \<open>
  \<^verbatim>\<open>GetAvgStdThreadRuntime\<close>.  \<^verbatim>\<open>aggRuntime\<close> is an \<^verbatim>\<open>int64\<close>: its additions wrap
  around.  The quotient \<open>0 / 0\<close> of an empty map is \<^verbatim>\<open>NaN\<close>, for both results: \<open>None\<close>.
  The length of the map is the number of keys the first loop visits.
\<close>

definition wrap64 :: "int \<Rightarrow> int" where
  "wrap64 x = (x + 2 ^ 63) mod 2 ^ 64 - 2 ^ 63"

definition runtimeMs :: "threadFileMetadata \<Rightarrow> int" where
  "runtimeMs thMetadata =
     Milliseconds (Sub (logsEndTimestamp thMetadata) (logsStartTimestamp thMetadata))"

fun aggLoop :: "SyncLogWriter \<Rightarrow> string list \<Rightarrow> int \<Rightarrow> int" where
  "aggLoop s [] aggRuntime = aggRuntime"
| "aggLoop s (k # ks) aggRuntime =
     (case threadsMetadata s k of
        None \<Rightarrow> aggLoop s ks aggRuntime
      | Some thMetadata \<Rightarrow> aggLoop s ks (wrap64 (aggRuntime + runtimeMs thMetadata)))"

text \<open>One squared deviation: \<^verbatim>\<open>math.Pow(avgRuntime-float64(runtimeMs), 2)\<close>.\<close>

definition sqDev :: "real \<Rightarrow> int \<Rightarrow> real" where
  "sqDev avgRuntime r =
     (let d = round64 (avgRuntime - round64 (real_of_int r)) in round64 (d * d))"

fun stdLoop :: "SyncLogWriter \<Rightarrow> real \<Rightarrow> string list \<Rightarrow> real \<Rightarrow> real" where
  "stdLoop s avgRuntime [] stdSum = stdSum"
| "stdLoop s avgRuntime (k # ks) stdSum =
     (case threadsMetadata s k of
        None \<Rightarrow> stdLoop s avgRuntime ks stdSum
      | Some thMetadata \<Rightarrow>
          stdLoop s avgRuntime ks
            (round64 (stdSum + sqDev avgRuntime (runtimeMs thMetadata))))"

definition GetAvgStdThreadRuntime ::
  "string list \<Rightarrow> string list \<Rightarrow> SyncLogWriter \<Rightarrow> (real \<times> real) option" where
  "GetAvgStdThreadRuntime ks1 ks2 s =
     (let n = length ks1
      in if n = 0 then None
         else
           let avgRuntime =
                 round64 (round64 (real_of_int (aggLoop s ks1 0)) / round64 (real n));
               std = round64 (sqrt
                 (round64 (stdLoop s avgRuntime ks2 0 / round64 (real n))))
           in Some (avgRuntime, std))"

section \<open>Reading the raw log files\<close>

text \<open>
  What reading one file of the input directory gives: whether \<^verbatim>\<open>os.OpenFile\<close> fails,
  the lines the scanner delivers, and whether the scanner ends with an error.
\<close>

record rawFile =
  openErr :: bool
  fileLines :: "string list"
  scanErr :: bool

fun scanLoop :: "world \<Rightarrow> string list \<Rightarrow> error option \<times> world" where
  "scanLoop w [] = (None, w)"
| "scanLoop w (lineText # ls) =
     (case ParseLogline lineText of
        Inl err \<Rightarrow> (Some err, w)
      | Inr llObj \<Rightarrow>
          (case Write w llObj of
             (Some err, w') \<Rightarrow> (Some err, w')
           | (None, w') \<Rightarrow> scanLoop w' ls))"

definition convertProcessLogFile :: "rawFile \<Rightarrow> world \<Rightarrow> error option \<times> world" where
  "convertProcessLogFile f w =
     (if openErr f then (Some (OpenFileErr []), w)
      else
        (case scanLoop w (fileLines f) of
           (Some err, w') \<Rightarrow> (Some err, w')
         | (None, w') \<Rightarrow> if scanErr f then (Some ScanErr, w') else (None, w')))"

text \<open>
  \<^verbatim>\<open>ProcessRawLogFiles\<close>: the directory listing is \<open>None\<close> when \<^verbatim>\<open>os.ReadDir\<close>
  fails.  The value \<^verbatim>\<open>convertProcessLogFile\<close> returns is not used.
\<close>

fun filesLoop :: "rawFile list \<Rightarrow> world \<Rightarrow> world" where
  "filesLoop [] w = w"
| "filesLoop (f # fs) w = filesLoop fs (snd (convertProcessLogFile f w))"

definition ProcessRawLogFiles :: "rawFile list option \<Rightarrow> world \<Rightarrow> error option \<times> world" where
  "ProcessRawLogFiles dir w =
     (case dir of
        None \<Rightarrow> (Some ReadDirErr, w)
      | Some processesLogDirEntries \<Rightarrow> (None, filesLoop processesLogDirEntries w))"

text \<open>The world after the rendered line and a line feed have gone to the file at \<open>p\<close>.\<close>

definition appendLine :: "world \<Rightarrow> string \<Rightarrow> LogLine \<Rightarrow> world" where
  "appendLine w p ll = w\<lparr>files := (files w)(p \<mapsto> content w p @ String ll @ [CHR 0x0A])\<rparr>"

text \<open>The path \<^verbatim>\<open>initialize\<close> opens for a process id and a thread id.\<close>

definition threadPath :: "string \<Rightarrow> string \<Rightarrow> string" where
  "threadPath pid thid =
     filepath_Join mergeLogFilePath (pid @ ''-'' @ thid @ ''.'' @ mergeLogFileExtension)"

text \<open>
  A text in which no space is followed by a dash and which does not end in a space: the
  separator \<^verbatim>\<open>" - "\<close> cannot begin inside it.
\<close>

fun noSpaceDash :: "string \<Rightarrow> bool" where
  "noSpaceDash [] = True"
| "noSpaceDash [c] = (c \<noteq> CHR '' '')"
| "noSpaceDash (c # d # r) = (\<not> (c = CHR '' '' \<and> d = CHR ''-'') \<and> noSpaceDash (d # r))"

text \<open>
  The path recorded for a thread, and the property of a world that every open file of
  the map is the file at the recorded path of its thread (\<^verbatim>\<open>initialize\<close> sets both from
  one value and nothing changes the path afterwards).
\<close>

definition pathOf :: "world \<Rightarrow> string \<Rightarrow> string option" where
  "pathOf w k = map_option logFilepath (threadsMetadata (slw w) k)"

definition fdMatchesPath :: "world \<Rightarrow> bool" where
  "fdMatchesPath w =
     (\<forall>k th p. threadsMetadata (slw w) k = Some th \<longrightarrow> logFd th = Some p
        \<longrightarrow> p = logFilepath th)"

section \<open>A sequence of records\<close>

text \<open>
  The calls of \<^verbatim>\<open>Write\<close> for a sequence of records in their order of arrival, each on
  the world the call before left; the value of every call is kept.
\<close>

fun writeAll :: "world \<Rightarrow> LogLine list \<Rightarrow> error option list \<times> world" where
  "writeAll w [] = ([], w)"
| "writeAll w (ll # lls) =
     (case Write w ll of
        (err, w') \<Rightarrow> (case writeAll w' lls of (errs, w'') \<Rightarrow> (err # errs, w'')))"

section \<open>Values for the examples\<close>

text \<open>
  \<open>clock h m s ms\<close> is the time \<^verbatim>\<open>2020-08-09 h:m:s,ms\<close>; \<open>closedSegment\<close> is the
  state of a thread after its end marker, \<open>openSegment\<close> the state after its start
  marker only; \<open>freshWorld\<close> is a new writer with no file yet.
\<close>

definition clock :: "int \<Rightarrow> int \<Rightarrow> int \<Rightarrow> int \<Rightarrow> time" where
  "clock h m s ms =
     \<lparr>year = 2020, month = 8, day = 9, hour = h, minute = m, second = s,
      nsec = ms * 1000000\<rparr>"

definition closedSegment :: "string \<Rightarrow> string \<Rightarrow> time \<Rightarrow> time \<Rightarrow> threadFileMetadata" where
  "closedSegment pid thid st en =
     \<lparr>processId = pid, logsStartTimestamp = st, logsEndTimestamp = en, logFd = None,
      logFilepath = threadPath pid thid\<rparr>"

definition openSegment :: "string \<Rightarrow> string \<Rightarrow> time \<Rightarrow> threadFileMetadata" where
  "openSegment pid thid st =
     \<lparr>processId = pid, logsStartTimestamp = st, logsEndTimestamp = zeroTime,
      logFd = Some (threadPath pid thid), logFilepath = threadPath pid thid\<rparr>"

definition freshWorld :: world where
  "freshWorld = \<lparr>slw = NewLogWriter, files = Map.empty, openFails = (\<lambda>p. False)\<rparr>"

text \<open>
  The three closed segments of the specification's peak-concurrency example, with the
  pairs (t=0, t=10), (t=2, t=8), (t=9, t=15) taken as seconds after 18:00:00; and the
  single segment from 10:00:00 to 10:00:05 of its overlap example.
\<close>

definition threeThreads :: SyncLogWriter where
  "threeThreads =
     \<lparr>threadsMetadata =
        [''t1'' \<mapsto> closedSegment ''p'' ''t1'' (clock 18 0 0 0) (clock 18 0 10 0),
         ''t2'' \<mapsto> closedSegment ''p'' ''t2'' (clock 18 0 2 0) (clock 18 0 8 0),
         ''t3'' \<mapsto> closedSegment ''p'' ''t3'' (clock 18 0 9 0) (clock 18 0 15 0)]\<rparr>"

definition oneThread :: SyncLogWriter where
  "oneThread =
     \<lparr>threadsMetadata =
        [''t1'' \<mapsto> closedSegment ''p'' ''t1'' (clock 10 0 0 0) (clock 10 0 5 0)]\<rparr>"

text \<open>
  A log of one process whose six lines leave the three segments above, and three closed
  segments with the runtimes 100 ms, 200 ms and 300 ms of the specification's
  runtime example.
\<close>

definition peakExampleLines :: "string list" where
  "peakExampleLines =
     [''p:t1::n 2020-08-09 18:00:00,000 - **START**'',
      ''p:t2::n 2020-08-09 18:00:02,000 - **START**'',
      ''p:t2::n 2020-08-09 18:00:08,000 - **END**'',
      ''p:t3::n 2020-08-09 18:00:09,000 - **START**'',
      ''p:t1::n 2020-08-09 18:00:10,000 - **END**'',
      ''p:t3::n 2020-08-09 18:00:15,000 - **END**'']"





text \<open>A start record of thread \<open>t1\<close> at 18:59:25,200 with no end record after it.\<close>

definition startOnly :: LogLine where
  "startOnly =
     \<lparr>processID = ''p'', threadID = ''t1'', threadName = ''n'',
      timestamp = clock 18 59 25 200, message = ''**START**''\<rparr>"

text \<open>
  An input directory of two files: the only line of the first is not a log line, the
  second holds the start record of thread \<open>t1\<close>.
\<close>

definition garbageFile :: rawFile where
  "garbageFile = \<lparr>openErr = False, fileLines = [''not a log line''], scanErr = False\<rparr>"

definition startFile :: rawFile where
  "startFile =
     \<lparr>openErr = False, fileLines = [''p:t1::n 2020-08-09 18:59:25,200 - **START**''],
      scanErr = False\<rparr>"

text \<open>
  Records for the examples of the demultiplexing: the six records of
  \<open>peakExampleLines\<close>; two threads \<open>c\<close> and \<open>b-c\<close> of the processes \<open>a-b\<close> and \<open>a\<close>,
  whose files have one name; and a thread with a record after its end marker.
\<close>

definition logRecord :: "string \<Rightarrow> string \<Rightarrow> time \<Rightarrow> string \<Rightarrow> LogLine" where
  "logRecord pid thid ts msg =
     \<lparr>processID = pid, threadID = thid, threadName = ''n'', timestamp = ts, message = msg\<rparr>"

definition peakRecords :: "LogLine list" where
  "peakRecords =
     [logRecord ''p'' ''t1'' (clock 18 0 0 0) ''**START**'',
      logRecord ''p'' ''t2'' (clock 18 0 2 0) ''**START**'',
      logRecord ''p'' ''t2'' (clock 18 0 8 0) ''**END**'',
      logRecord ''p'' ''t3'' (clock 18 0 9 0) ''**START**'',
      logRecord ''p'' ''t1'' (clock 18 0 10 0) ''**END**'',
      logRecord ''p'' ''t3'' (clock 18 0 15 0) ''**END**'']"

definition collidingRecords :: "LogLine list" where
  "collidingRecords =
     [logRecord ''a-b'' ''c'' (clock 18 0 0 0) ''**START**'',
      logRecord ''a'' ''b-c'' (clock 18 0 1 0) ''**START**'']"

definition lateRecords :: "LogLine list" where
  "lateRecords =
     [logRecord ''p'' ''t1'' (clock 18 0 0 0) ''**START**'',
      logRecord ''p'' ''t1'' (clock 18 0 1 0) ''**END**'',
      logRecord ''p'' ''t1'' (clock 18 0 2 0) ''late'']"

section \<open>The concurrency count in the specification's words\<close>

text \<open>
  Query B of the specification: the count of a thread \<open>A\<close> is the number of threads
  \<open>B\<close>, \<open>A\<close> among them, whose start lies in the window from the start of \<open>A\<close> to its
  end, the end excluded and a start equal to that of \<open>A\<close> counted.
\<close>

definition concurrencyCount :: "SyncLogWriter \<Rightarrow> threadFileMetadata \<Rightarrow> int" where
  "concurrencyCount s A =
     int (card {b. \<exists>B. threadsMetadata s b = Some B
        \<and> (absNs (logsStartTimestamp B) = absNs (logsStartTimestamp A)
           \<or> (absNs (logsStartTimestamp A) < absNs (logsStartTimestamp B)
               \<and> absNs (logsStartTimestamp B) < absNs (logsEndTimestamp A)))})"

section \<open>The runtime statistics in the specification's words\<close>

text \<open>
  Query C of the specification, over the real numbers: the arithmetic mean of the
  runtimes of all threads, and their population standard deviation, the square root of
  the mean of the squared deviations from that mean (the divisor is the number of
  threads, not one less).  \<open>runtimeOf\<close> is the runtime the code takes for a thread.
\<close>

definition runtimeOf :: "SyncLogWriter \<Rightarrow> string \<Rightarrow> int" where
  "runtimeOf s k = runtimeMs (the (threadsMetadata s k))"

definition runtimeSum :: "SyncLogWriter \<Rightarrow> int" where
  "runtimeSum s = (\<Sum>k \<in> dom (threadsMetadata s). runtimeOf s k)"

definition arithMean :: "SyncLogWriter \<Rightarrow> real" where
  "arithMean s = real_of_int (runtimeSum s) / real (card (dom (threadsMetadata s)))"

definition popStdDev :: "SyncLogWriter \<Rightarrow> real" where
  "popStdDev s =
     sqrt ((\<Sum>k \<in> dom (threadsMetadata s). (arithMean s - real_of_int (runtimeOf s k))\<^sup>2)
           / real (card (dom (threadsMetadata s))))"

section \<open>Rejected starts\<close>

text \<open>
  Claim C7.  A record whose thread id has no entry in the writer's map and whose message
  is not the start marker makes \<^verbatim>\<open>Write\<close> return the wrapped "invalid start of thread
  logs" error, and the world after the call is the world before it: no entry is made, the
  map is the same, and no file is created or written.
\<close>

theorem Write_invalid_start_rejected:
  assumes "threadsMetadata (slw w) (threadID ll) = None"
      and "message ll \<noteq> threadLogsStartMarker"
  shows "Write w ll = (Some (InitWrapped InvalidStart), w)"
  using assms by (simp add: Write_def initialize_def)

theorem Write_invalid_start_rejected_witness:
  "threadsMetadata (slw \<lparr>slw = NewLogWriter, files = Map.empty, openFails = (\<lambda>p. False)\<rparr>)
     (threadID \<lparr>processID = ''p1'', threadID = ''t1'', threadName = ''worker'',
        timestamp = zeroTime, message = ''hello''\<rparr>) = None
   \<and> message \<lparr>processID = ''p1'', threadID = ''t1'', threadName = ''worker'',
        timestamp = zeroTime, message = ''hello''\<rparr> \<noteq> threadLogsStartMarker
   \<and> Write \<lparr>slw = NewLogWriter, files = Map.empty, openFails = (\<lambda>p. False)\<rparr>
        \<lparr>processID = ''p1'', threadID = ''t1'', threadName = ''worker'',
          timestamp = zeroTime, message = ''hello''\<rparr>
      = (Some (InitWrapped InvalidStart),
         \<lparr>slw = NewLogWriter, files = Map.empty, openFails = (\<lambda>p. False)\<rparr>)"
proof -
  let ?w = "\<lparr>slw = NewLogWriter, files = Map.empty, openFails = (\<lambda>p. False)\<rparr>"
  let ?ll = "\<lparr>processID = ''p1'', threadID = ''t1'', threadName = ''worker'',
        timestamp = zeroTime, message = ''hello''\<rparr>"
  have h1: "threadsMetadata (slw ?w) (threadID ?ll) = None"
    by (simp add: NewLogWriter_def)
  have h2: "message ?ll \<noteq> threadLogsStartMarker"
    by (simp add: threadLogsStartMarker_def)
  show ?thesis
    using h1 h2 Write_invalid_start_rejected [OF h1 h2] by simp
qed

section \<open>Evaluating the examples\<close>

lemma absNs_clock:
  "absNs (clock h m s ms) = ((((737645 * 24 + h) * 60 + m) * 60 + s) * 1000 + ms) * 1000000"
  by (simp add: clock_def absNs_def absDays_def daysBefore_def isLeap_def)

lemma absNs_zeroTime: "absNs zeroTime = 0"
  by (simp add: zeroTime_def absNs_def absDays_def daysBefore_def)

lemma threadPath_simple:
  "threadPath ''p'' ''t1'' = ''mergedlogs/p-t1.log''"
  "threadPath ''p'' ''t2'' = ''mergedlogs/p-t2.log''"
  "threadPath ''p'' ''t3'' = ''mergedlogs/p-t3.log''"
  by (simp_all add: threadPath_def filepath_Join_def mergeLogFilePath_def
      mergeLogFileExtension_def Clean_def cleanStep_def)

section \<open>Query A: the threads active in a range\<close>

lemma activeLoop_set:
  "set (activeLoop s t1 t2 ks acc) =
     set acc \<union> {\<lparr>ProcessID = processId md, ThreadId = k, ThreadFileName = logFilepath md\<rparr> | k md.
        k \<in> set ks \<and> threadsMetadata s k = Some md
        \<and> \<not> (Before t2 (logsStartTimestamp md) \<or> After t1 (logsEndTimestamp md))}"
proof (induction ks arbitrary: acc)
  case Nil
  then show ?case by simp
next
  case (Cons k ks)
  show ?case
  proof (cases "threadsMetadata s k")
    case None
    then show ?thesis using Cons.IH [of acc] by auto
  next
    case (Some md)
    show ?thesis
    proof (cases "Before t2 (logsStartTimestamp md) \<or> After t1 (logsEndTimestamp md)")
      case True
      then show ?thesis using Some Cons.IH [of acc] by auto
    next
      case False
      then show ?thesis
        using Some Cons.IH [of "acc @ [\<lparr>ProcessID = processId md, ThreadId = k, ThreadFileName = logFilepath md\<rparr>]"]
        by auto
    qed
  qed
qed

lemma activeLoop_ids:
  "map ThreadId (activeLoop s t1 t2 ks acc) =
     map ThreadId acc @ filter (\<lambda>k. \<exists>md. threadsMetadata s k = Some md
        \<and> \<not> (Before t2 (logsStartTimestamp md) \<or> After t1 (logsEndTimestamp md))) ks"
  by (induction ks arbitrary: acc) (auto split: option.splits)

lemma distinct_map_filter_le1:
  "distinct (map f xs) \<Longrightarrow> length (filter (\<lambda>i. f i = k) xs) \<le> 1"
proof (induction xs)
  case Nil
  then show ?case by simp
next
  case (Cons x xs)
  show ?case
  proof (cases "f x = k")
    case True
    have "f x \<notin> f ` set xs" using Cons.prems by simp
    then have "\<forall>i\<in>set xs. f i \<noteq> k" using True by (metis imageI)
    then have "filter (\<lambda>i. f i = k) xs = []"
      by (simp add: filter_empty_conv)
    then show ?thesis using True by simp
  next
    case False
    then show ?thesis using Cons by simp
  qed
qed

text \<open>
  Claim C6.  Under any order of the visit, the thread \<open>k\<close> with state \<open>md\<close> is reported
  (with its process id and file name) exactly when neither the end of the range is before
  its start nor the start of the range after its end.  For a segment whose end is not
  before its start and a range whose end is not before its start, that is exactly when
  the two closed intervals share an instant.  The thread is reported at most once, and
  nothing else is reported under its id.
\<close>

theorem active_threads_overlap:
  assumes "distinct ks" and "set ks = dom (threadsMetadata s)"
      and "threadsMetadata s k = Some md"
  shows "(\<lparr>ProcessID = processId md, ThreadId = k, ThreadFileName = logFilepath md\<rparr>
            \<in> set (GetActiveThreadCountBetweenInterval ks s t1 t2))
         = (\<not> (Before t2 (logsStartTimestamp md) \<or> After t1 (logsEndTimestamp md)))
       \<and> (\<not> Before (logsEndTimestamp md) (logsStartTimestamp md) \<and> \<not> Before t2 t1 \<longrightarrow>
            (\<lparr>ProcessID = processId md, ThreadId = k, ThreadFileName = logFilepath md\<rparr>
               \<in> set (GetActiveThreadCountBetweenInterval ks s t1 t2))
            = (\<exists>x. absNs (logsStartTimestamp md) \<le> x \<and> x \<le> absNs (logsEndTimestamp md)
                  \<and> absNs t1 \<le> x \<and> x \<le> absNs t2))
       \<and> length (filter (\<lambda>i. ThreadId i = k) (GetActiveThreadCountBetweenInterval ks s t1 t2)) \<le> 1
       \<and> (\<forall>i \<in> set (GetActiveThreadCountBetweenInterval ks s t1 t2). ThreadId i = k \<longrightarrow>
            i = \<lparr>ProcessID = processId md, ThreadId = k, ThreadFileName = logFilepath md\<rparr>)"
proof -
  let ?res = "GetActiveThreadCountBetweenInterval ks s t1 t2"
  let ?info = "\<lparr>ProcessID = processId md, ThreadId = k, ThreadFileName = logFilepath md\<rparr>"
  let ?keep = "\<not> (Before t2 (logsStartTimestamp md) \<or> After t1 (logsEndTimestamp md))"
  have kin: "k \<in> set ks" using assms(2,3) by auto
  have mem: "(?info \<in> set ?res) = ?keep"
    unfolding GetActiveThreadCountBetweenInterval_def activeLoop_set
    using kin assms(3) by auto
  have ovl: "\<not> Before (logsEndTimestamp md) (logsStartTimestamp md) \<and> \<not> Before t2 t1 \<longrightarrow>
      ?keep = (\<exists>x. absNs (logsStartTimestamp md) \<le> x \<and> x \<le> absNs (logsEndTimestamp md)
                  \<and> absNs t1 \<le> x \<and> x \<le> absNs t2)"
  proof (intro impI)
    assume a: "\<not> Before (logsEndTimestamp md) (logsStartTimestamp md) \<and> \<not> Before t2 t1"
    show "?keep = (\<exists>x. absNs (logsStartTimestamp md) \<le> x \<and> x \<le> absNs (logsEndTimestamp md)
                  \<and> absNs t1 \<le> x \<and> x \<le> absNs t2)"
    proof
      assume ?keep
      then have "absNs (logsStartTimestamp md) \<le> max (absNs (logsStartTimestamp md)) (absNs t1)
          \<and> max (absNs (logsStartTimestamp md)) (absNs t1) \<le> absNs (logsEndTimestamp md)
          \<and> absNs t1 \<le> max (absNs (logsStartTimestamp md)) (absNs t1)
          \<and> max (absNs (logsStartTimestamp md)) (absNs t1) \<le> absNs t2"
        using a by (auto simp: Before_def After_def)
      then show "\<exists>x. absNs (logsStartTimestamp md) \<le> x \<and> x \<le> absNs (logsEndTimestamp md)
                  \<and> absNs t1 \<le> x \<and> x \<le> absNs t2" by blast
    next
      assume "\<exists>x. absNs (logsStartTimestamp md) \<le> x \<and> x \<le> absNs (logsEndTimestamp md)
                  \<and> absNs t1 \<le> x \<and> x \<le> absNs t2"
      then show ?keep by (auto simp: Before_def After_def)
    qed
  qed
  have ids: "map ThreadId ?res = filter (\<lambda>k. \<exists>md. threadsMetadata s k = Some md
        \<and> \<not> (Before t2 (logsStartTimestamp md) \<or> After t1 (logsEndTimestamp md))) ks"
    unfolding GetActiveThreadCountBetweenInterval_def activeLoop_ids by simp
  have "distinct (map ThreadId ?res)" unfolding ids using assms(1) by simp
  then have once: "length (filter (\<lambda>i. ThreadId i = k) ?res) \<le> 1"
    by (rule distinct_map_filter_le1)
  have own: "\<forall>i \<in> set ?res. ThreadId i = k \<longrightarrow> i = ?info"
    unfolding GetActiveThreadCountBetweenInterval_def activeLoop_set
    using assms(3) by auto
  show ?thesis using mem ovl once own by simp
qed

text \<open>
  The example of the claim: the segment from 10:00:00 to 10:00:05 and the range from
  10:00:05 to 10:00:10 touch at one instant, and the segment is reported.
\<close>

theorem active_threads_overlap_witness:
  "distinct [''t1''] \<and> set [''t1''] = dom (threadsMetadata oneThread)
   \<and> threadsMetadata oneThread ''t1''
       = Some (closedSegment ''p'' ''t1'' (clock 10 0 0 0) (clock 10 0 5 0))
   \<and> \<not> Before (clock 10 0 5 0) (clock 10 0 0 0) \<and> \<not> Before (clock 10 0 10 0) (clock 10 0 5 0)
   \<and> \<not> (Before (clock 10 0 10 0) (clock 10 0 0 0) \<or> After (clock 10 0 5 0) (clock 10 0 5 0))
   \<and> \<lparr>ProcessID = ''p'', ThreadId = ''t1'', ThreadFileName = ''mergedlogs/p-t1.log''\<rparr>
       \<in> set (GetActiveThreadCountBetweenInterval [''t1''] oneThread
                (clock 10 0 5 0) (clock 10 0 10 0))
   \<and> (\<exists>x. absNs (clock 10 0 0 0) \<le> x \<and> x \<le> absNs (clock 10 0 5 0)
          \<and> absNs (clock 10 0 5 0) \<le> x \<and> x \<le> absNs (clock 10 0 10 0))"
proof -
  let ?md = "closedSegment ''p'' ''t1'' (clock 10 0 0 0) (clock 10 0 5 0)"
  have h1: "distinct [''t1'']" by simp
  have h2: "set [''t1''] = dom (threadsMetadata oneThread)"
    by (simp add: oneThread_def)
  have h3: "threadsMetadata oneThread ''t1'' = Some ?md"
    by (simp add: oneThread_def)
  have h4: "\<not> Before (clock 10 0 5 0) (clock 10 0 0 0) \<and> \<not> Before (clock 10 0 10 0) (clock 10 0 5 0)"
    by (simp add: Before_def absNs_clock)
  have h5: "\<not> (Before (clock 10 0 10 0) (clock 10 0 0 0) \<or> After (clock 10 0 5 0) (clock 10 0 5 0))"
    by (simp add: Before_def After_def absNs_clock)
  have md: "processId ?md = ''p''" "logFilepath ?md = ''mergedlogs/p-t1.log''"
    "logsStartTimestamp ?md = clock 10 0 0 0" "logsEndTimestamp ?md = clock 10 0 5 0"
    by (simp_all add: closedSegment_def threadPath_simple)
  show ?thesis
    using active_threads_overlap [OF h1 h2 h3, of "clock 10 0 5 0" "clock 10 0 10 0"]
      h1 h2 h3 h4 h5
    unfolding md by blast
qed

section \<open>Query B: peak concurrency\<close>

lemma innerLoop_count:
  "innerLoop s md ks c =
     c + int (length (filter (\<lambda>k. \<exists>i. threadsMetadata s k = Some i \<and> startsWithin i md) ks))"
  by (induction ks arbitrary: c) (auto split: option.splits)

lemma innerLoop_card:
  assumes "distinct ks" and "set ks = dom (threadsMetadata s)"
  shows "innerLoop s md ks 0 =
     int (card {b. \<exists>B. threadsMetadata s b = Some B \<and> startsWithin B md})"
proof -
  have "{k \<in> set ks. \<exists>i. threadsMetadata s k = Some i \<and> startsWithin i md}
        = {b. \<exists>B. threadsMetadata s b = Some B \<and> startsWithin B md}"
    using assms(2) by auto
  then show ?thesis
    using assms(1) by (simp add: innerLoop_count distinct_length_filter Int_def conj_commute)
qed

lemma memoLoop_lookup:
  "memoLoop s kin ks memo k =
     (if k \<in> set ks \<and> threadsMetadata s k \<noteq> None
      then Some (innerLoop s (the (threadsMetadata s k)) (kin k) 0) else memo k)"
  by (induction ks arbitrary: memo) (auto split: option.splits)

lemma maxLoop_total:
  assumes "\<forall>k \<in> set km. memo k \<noteq> None \<longrightarrow> threadsMetadata s k \<noteq> None"
  shows "\<exists>r. maxLoop s memo km acc = Some r"
  using assms
proof (induction km arbitrary: acc)
  case Nil
  then show ?case by simp
next
  case (Cons k km)
  obtain mx ep where acc: "acc = (mx, ep)" by (cases acc)
  show ?case using Cons unfolding acc by (auto split: option.splits)
qed

lemma maxLoop_result:
  assumes "maxLoop s memo km (mx, ep) = Some (mx', ep')"
  shows "mx \<le> mx'
     \<and> (\<forall>k \<in> set km. \<forall>c. memo k = Some c \<longrightarrow> c \<le> mx')
     \<and> ((mx' = mx \<and> ep' = ep)
        \<or> (\<exists>k \<in> set km. \<exists>md. memo k = Some mx' \<and> threadsMetadata s k = Some md
              \<and> ep' = logsStartTimestamp md))"
  using assms
proof (induction km arbitrary: mx ep)
  case Nil
  then show ?case by simp
next
  case (Cons k km)
  show ?case
  proof (cases "memo k")
    case None
    then show ?thesis using Cons.IH [of mx ep] Cons.prems by auto
  next
    case (Some c)
    show ?thesis
    proof (cases "c > mx")
      case False
      then have "maxLoop s memo km (mx, ep) = Some (mx', ep')"
        using Cons.prems Some by simp
      from Cons.IH [OF this] show ?thesis using Some False by auto
    next
      case True
      then obtain md where md: "threadsMetadata s k = Some md"
        and rec: "maxLoop s memo km (c, logsStartTimestamp md) = Some (mx', ep')"
        using Cons.prems Some by (auto split: option.splits)
      from Cons.IH [OF rec] show ?thesis using Some True md by auto
    qed
  qed
qed


lemma innerLoop_concurrencyCount:
  assumes "distinct ks" and "set ks = dom (threadsMetadata s)"
  shows "innerLoop s A ks 0 = concurrencyCount s A"
  unfolding innerLoop_card [OF assms] concurrencyCount_def startsWithin_def
    Equal_def After_def Before_def
  by simp

lemma concurrencyCount_pos:
  assumes "finite (dom (threadsMetadata s))" and "threadsMetadata s a = Some A"
  shows "1 \<le> concurrencyCount s A"
proof -
  let ?S = "{b. \<exists>B. threadsMetadata s b = Some B
        \<and> (absNs (logsStartTimestamp B) = absNs (logsStartTimestamp A)
           \<or> (absNs (logsStartTimestamp A) < absNs (logsStartTimestamp B)
               \<and> absNs (logsStartTimestamp B) < absNs (logsEndTimestamp A)))}"
  have "?S \<subseteq> dom (threadsMetadata s)" by auto
  then have fin: "finite ?S" using assms(1) by (rule finite_subset)
  have "a \<in> ?S" using assms(2) by simp
  then have "card ?S \<noteq> 0" using fin by auto
  then show ?thesis unfolding concurrencyCount_def by simp
qed

text \<open>
  Claim C5.  Under any orders of the visits, the function returns; the count it keeps
  for a thread \<open>A\<close> is the number of threads whose start equals the start of \<open>A\<close> or lies
  strictly between the start and the end of \<open>A\<close>; the number returned is at least every
  such count and, when there is a thread, is the count of some thread whose start is the
  epoch returned (with no thread the result is 0 and the zero time).  For a thread
  whose start is before its end the count is the number of starts in the half-open
  window from its start to its end.
\<close>

theorem max_concurrency_counts:
  assumes "distinct ks" and "set ks = dom (threadsMetadata s)"
      and "\<forall>k \<in> dom (threadsMetadata s). distinct (kin k) \<and> set (kin k) = dom (threadsMetadata s)"
      and "distinct km" and "set km = dom (threadsMetadata s)"
  shows "\<exists>mx ep. GetMaxConcurrencyAndEpoch ks kin km s = Some (mx, ep)
     \<and> (\<forall>a A. threadsMetadata s a = Some A \<longrightarrow>
           memoLoop s kin ks Map.empty a = Some (concurrencyCount s A))
     \<and> (\<forall>a A. threadsMetadata s a = Some A \<longrightarrow> concurrencyCount s A \<le> mx)
     \<and> (dom (threadsMetadata s) \<noteq> {} \<longrightarrow>
           (\<exists>a A. threadsMetadata s a = Some A \<and> concurrencyCount s A = mx
              \<and> ep = logsStartTimestamp A))
     \<and> (dom (threadsMetadata s) = {} \<longrightarrow> mx = 0 \<and> ep = zeroTime)
     \<and> (\<forall>a A. threadsMetadata s a = Some A
             \<and> absNs (logsStartTimestamp A) < absNs (logsEndTimestamp A) \<longrightarrow>
           concurrencyCount s A =
             int (card {b. \<exists>B. threadsMetadata s b = Some B
                \<and> absNs (logsStartTimestamp A) \<le> absNs (logsStartTimestamp B)
                \<and> absNs (logsStartTimestamp B) < absNs (logsEndTimestamp A)}))"
proof -
  let ?m = "threadsMetadata s"
  let ?memo = "memoLoop s kin ks Map.empty"
  have memo: "?memo a = Some (concurrencyCount s A)" if "?m a = Some A" for a A
  proof -
    have a: "a \<in> dom ?m" using that by auto
    then have "distinct (kin a)" and "set (kin a) = dom ?m" using assms(3) by auto
    then have "innerLoop s A (kin a) 0 = concurrencyCount s A"
      by (rule innerLoop_concurrencyCount)
    then show ?thesis using that a assms(2) by (simp add: memoLoop_lookup)
  qed
  have memo_dom: "?memo k \<noteq> None \<longrightarrow> ?m k \<noteq> None" for k
    by (simp add: memoLoop_lookup)
  then obtain r where "maxLoop s ?memo km (0, zeroTime) = Some r"
    using maxLoop_total [of km ?memo s "(0, zeroTime)"] by blast
  then obtain mx ep where res: "maxLoop s ?memo km (0, zeroTime) = Some (mx, ep)"
    by (cases r) auto
  note mr = maxLoop_result [OF res]
  have fin: "finite (dom ?m)" using assms(2) by (metis List.finite_set)
  have ub: "concurrencyCount s A \<le> mx" if "?m a = Some A" for a A
  proof -
    have "a \<in> set km" using that assms(5) by auto
    then show ?thesis using mr memo [OF that] by blast
  qed
  have att: "\<exists>a A. ?m a = Some A \<and> concurrencyCount s A = mx \<and> ep = logsStartTimestamp A"
    if ne: "dom ?m \<noteq> {}"
  proof -
    obtain a where "a \<in> dom ?m" using ne by blast
    then obtain A where aA: "?m a = Some A" by blast
    have "1 \<le> mx" using concurrencyCount_pos [OF fin aA] ub [OF aA] by simp
    then have "\<exists>k \<in> set km. \<exists>md. ?memo k = Some mx \<and> ?m k = Some md
        \<and> ep = logsStartTimestamp md"
      using mr by auto
    then obtain k md where k: "?memo k = Some mx" "?m k = Some md" "ep = logsStartTimestamp md"
      by blast
    then have "concurrencyCount s md = mx" using memo [OF k(2)] by simp
    then show ?thesis using k by blast
  qed
  have emp: "mx = 0 \<and> ep = zeroTime" if "dom ?m = {}"
  proof -
    have "km = []" using that assms(5) by simp
    then show ?thesis using res by simp
  qed
  have win: "concurrencyCount s A =
             int (card {b. \<exists>B. ?m b = Some B
                \<and> absNs (logsStartTimestamp A) \<le> absNs (logsStartTimestamp B)
                \<and> absNs (logsStartTimestamp B) < absNs (logsEndTimestamp A)})"
    if "absNs (logsStartTimestamp A) < absNs (logsEndTimestamp A)" for A
  proof -
    have "{b. \<exists>B. ?m b = Some B
        \<and> (absNs (logsStartTimestamp B) = absNs (logsStartTimestamp A)
           \<or> (absNs (logsStartTimestamp A) < absNs (logsStartTimestamp B)
               \<and> absNs (logsStartTimestamp B) < absNs (logsEndTimestamp A)))}
      = {b. \<exists>B. ?m b = Some B
                \<and> absNs (logsStartTimestamp A) \<le> absNs (logsStartTimestamp B)
                \<and> absNs (logsStartTimestamp B) < absNs (logsEndTimestamp A)}"
      using that by auto
    then show ?thesis unfolding concurrencyCount_def by simp
  qed
  show ?thesis
    unfolding GetMaxConcurrencyAndEpoch_def
    using res memo ub att emp win by blast
qed

theorem max_concurrency_counts_witness:
  "distinct [''t2'', ''t3'', ''t1'']
   \<and> set [''t2'', ''t3'', ''t1''] = dom (threadsMetadata threeThreads)
   \<and> distinct [''t3'', ''t1'', ''t2'']
   \<and> set [''t3'', ''t1'', ''t2''] = dom (threadsMetadata threeThreads)
   \<and> distinct [''t3'', ''t2'', ''t1'']
   \<and> set [''t3'', ''t2'', ''t1''] = dom (threadsMetadata threeThreads)
   \<and> dom (threadsMetadata threeThreads) \<noteq> {}
   \<and> (\<exists>a A. threadsMetadata threeThreads a = Some A
         \<and> absNs (logsStartTimestamp A) < absNs (logsEndTimestamp A))
   \<and> (\<exists>mx ep. GetMaxConcurrencyAndEpoch [''t2'', ''t3'', ''t1''] (\<lambda>k. [''t3'', ''t1'', ''t2''])
           [''t3'', ''t2'', ''t1''] threeThreads = Some (mx, ep)
         \<and> (\<forall>a A. threadsMetadata threeThreads a = Some A \<longrightarrow>
               concurrencyCount threeThreads A \<le> mx)
         \<and> (\<exists>a A. threadsMetadata threeThreads a = Some A
               \<and> concurrencyCount threeThreads A = mx \<and> ep = logsStartTimestamp A))"
proof -
  have h1: "distinct [''t2'', ''t3'', ''t1'']" by simp
  have h2: "set [''t2'', ''t3'', ''t1''] = dom (threadsMetadata threeThreads)"
    by (auto simp: threeThreads_def)
  have h3: "\<forall>k \<in> dom (threadsMetadata threeThreads).
         distinct ((\<lambda>k. [''t3'', ''t1'', ''t2'']) k)
         \<and> set ((\<lambda>k. [''t3'', ''t1'', ''t2'']) k) = dom (threadsMetadata threeThreads)"
    by (auto simp: threeThreads_def)
  have h4: "distinct [''t3'', ''t2'', ''t1'']" by simp
  have h5: "set [''t3'', ''t2'', ''t1''] = dom (threadsMetadata threeThreads)"
    by (auto simp: threeThreads_def)
  have h6: "dom (threadsMetadata threeThreads) \<noteq> {}"
    by (simp add: threeThreads_def)
  have "threadsMetadata threeThreads ''t1''
          = Some (closedSegment ''p'' ''t1'' (clock 18 0 0 0) (clock 18 0 10 0))
        \<and> absNs (logsStartTimestamp (closedSegment ''p'' ''t1'' (clock 18 0 0 0) (clock 18 0 10 0)))
          < absNs (logsEndTimestamp (closedSegment ''p'' ''t1'' (clock 18 0 0 0) (clock 18 0 10 0)))"
    by (simp add: threeThreads_def closedSegment_def absNs_clock)
  then have h7: "\<exists>a A. threadsMetadata threeThreads a = Some A
         \<and> absNs (logsStartTimestamp A) < absNs (logsEndTimestamp A)"
    by blast
  have h3': "distinct [''t3'', ''t1'', ''t2'']
      \<and> set [''t3'', ''t1'', ''t2''] = dom (threadsMetadata threeThreads)"
    by (auto simp: threeThreads_def)
  show ?thesis
    using max_concurrency_counts [OF h1 h2 h3 h4 h5] h1 h2 h3' h4 h5 h6 h7
    by blast
qed

section \<open>The peak-concurrency example\<close>

lemmas parse_defs = time_Parse_def parseDate_def parseClock_def getRanged_def getYear_def
  atoi_def isDigit_def digitVal_def skipByte_def getFrac_def daysIn_def isLeap_def
  ParseLogline_def splitLogline_def SplitN2_def

lemma peak_example_parsed:
  "ParseLogline ''p:t1::n 2020-08-09 18:00:00,000 - **START**'' = Inr \<lparr>processID = ''p'', threadID = ''t1'', threadName = ''n'', timestamp = clock 18 0 0 0, message = ''**START**''\<rparr>"
  "ParseLogline ''p:t2::n 2020-08-09 18:00:02,000 - **START**'' = Inr \<lparr>processID = ''p'', threadID = ''t2'', threadName = ''n'', timestamp = clock 18 0 2 0, message = ''**START**''\<rparr>"
  "ParseLogline ''p:t2::n 2020-08-09 18:00:08,000 - **END**'' = Inr \<lparr>processID = ''p'', threadID = ''t2'', threadName = ''n'', timestamp = clock 18 0 8 0, message = ''**END**''\<rparr>"
  "ParseLogline ''p:t3::n 2020-08-09 18:00:09,000 - **START**'' = Inr \<lparr>processID = ''p'', threadID = ''t3'', threadName = ''n'', timestamp = clock 18 0 9 0, message = ''**START**''\<rparr>"
  "ParseLogline ''p:t1::n 2020-08-09 18:00:10,000 - **END**'' = Inr \<lparr>processID = ''p'', threadID = ''t1'', threadName = ''n'', timestamp = clock 18 0 10 0, message = ''**END**''\<rparr>"
  "ParseLogline ''p:t3::n 2020-08-09 18:00:15,000 - **END**'' = Inr \<lparr>processID = ''p'', threadID = ''t3'', threadName = ''n'', timestamp = clock 18 0 15 0, message = ''**END**''\<rparr>"
  by (simp_all add: parse_defs clock_def)

lemma peak_example_ingested:
  "fst (scanLoop freshWorld peakExampleLines) = None
   \<and> slw (snd (scanLoop freshWorld peakExampleLines)) = threeThreads"
  unfolding peakExampleLines_def
  apply (simp add: peak_example_parsed Write_def initialize_def writeLogLine_def setMeta_def
     freshWorld_def NewLogWriter_def threadLogsStartMarker_def threadLogsEndMarker_def
     threeThreads_def closedSegment_def Let_def)
  apply (rule ext)
  apply (simp add: threadPath_def)
  done

text \<open>
  Claim C1.  Reading the six lines of \<open>peakExampleLines\<close> into a new writer succeeds and
  leaves exactly the three closed segments (0, 10), (2, 8), (9, 15).  On them
  \<^verbatim>\<open>GetMaxConcurrencyAndEpoch\<close> returns 3 with the epoch t=0, under each of the six
  orders in which the last loop can visit the counts: the first thread counts the three
  starts 0, 2 and 9 that fall into its lifetime.  The result is neither the peak 2 nor one
  of the epochs t=2, t=9 of the claim.
\<close>

theorem peak_example_reports_three:
  "fst (scanLoop freshWorld peakExampleLines) = None
   \<and> slw (snd (scanLoop freshWorld peakExampleLines)) = threeThreads
   \<and> GetMaxConcurrencyAndEpoch [''t1'', ''t2'', ''t3''] (\<lambda>k. [''t1'', ''t2'', ''t3''])
      [''t1'', ''t2'', ''t3''] threeThreads = Some (3, clock 18 0 0 0)
   \<and> GetMaxConcurrencyAndEpoch [''t1'', ''t2'', ''t3''] (\<lambda>k. [''t1'', ''t2'', ''t3''])
      [''t1'', ''t3'', ''t2''] threeThreads = Some (3, clock 18 0 0 0)
   \<and> GetMaxConcurrencyAndEpoch [''t1'', ''t2'', ''t3''] (\<lambda>k. [''t1'', ''t2'', ''t3''])
      [''t2'', ''t1'', ''t3''] threeThreads = Some (3, clock 18 0 0 0)
   \<and> GetMaxConcurrencyAndEpoch [''t1'', ''t2'', ''t3''] (\<lambda>k. [''t1'', ''t2'', ''t3''])
      [''t2'', ''t3'', ''t1''] threeThreads = Some (3, clock 18 0 0 0)
   \<and> GetMaxConcurrencyAndEpoch [''t1'', ''t2'', ''t3''] (\<lambda>k. [''t1'', ''t2'', ''t3''])
      [''t3'', ''t1'', ''t2''] threeThreads = Some (3, clock 18 0 0 0)
   \<and> GetMaxConcurrencyAndEpoch [''t1'', ''t2'', ''t3''] (\<lambda>k. [''t1'', ''t2'', ''t3''])
      [''t3'', ''t2'', ''t1''] threeThreads = Some (3, clock 18 0 0 0)
   \<and> (3::int) \<noteq> 2
   \<and> clock 18 0 0 0 \<noteq> clock 18 0 2 0 \<and> clock 18 0 0 0 \<noteq> clock 18 0 9 0"
proof -
  have ne: "clock 18 0 0 0 \<noteq> clock 18 0 2 0 \<and> clock 18 0 0 0 \<noteq> clock 18 0 9 0"
    by (simp add: clock_def)
  show ?thesis
    using ne peak_example_ingested
    by (simp add: GetMaxConcurrencyAndEpoch_def threeThreads_def closedSegment_def
        startsWithin_def Before_def After_def Equal_def absNs_clock)
qed


section \<open>Rounding to \<^verbatim>\<open>float64\<close>\<close>

text \<open>
  Integers below \<open>2 ^ 53\<close> in magnitude are \<^verbatim>\<open>float64\<close> values; any other rounding
  moves a value of the normal range by at most the fraction \<open>1 / 2 ^ 53\<close> of it.
\<close>

lemma roundEven_of_int: "roundEven (of_int m) = m"
  by (simp add: roundEven_def)


lemma two_powr: "(2::real) powr real_of_int k = 2 powi k"
  by (rule powr_real_of_int') simp_all

lemma expo_bounds:
  assumes "2 powi (- 1022) \<le> \<bar>x\<bar>"
  shows "2 powi expo x \<le> \<bar>x\<bar>" and "\<bar>x\<bar> < 2 powi (expo x + 1)"
proof -
  have "(0::real) < 2 powi (- 1022)" by (rule zero_less_power_int) simp
  then have pos: "0 < \<bar>x\<bar>" using assms by linarith
  define k where "k = \<lfloor>log 2 \<bar>x\<bar>\<rfloor>"
  have "2 powr real_of_int k \<le> \<bar>x\<bar> \<and> \<bar>x\<bar> < 2 powr real_of_int (k + 1)"
    by (rule iffD1 [OF floor_log_eq_powr_iff [of "\<bar>x\<bar>" 2 k]]) (simp_all only: pos k_def one_less_numeral_iff num.simps semiring_norm)
  then have k: "2 powi k \<le> \<bar>x\<bar>" "\<bar>x\<bar> < 2 powi (k + 1)"
    unfolding two_powr by simp_all
  have "- 1022 \<le> k"
  proof (rule ccontr)
    assume "\<not> - 1022 \<le> k"
    then have "k + 1 \<le> - 1022" by simp
    then have "(2::real) powi (k + 1) \<le> 2 powi (- 1022)"
      by (intro power_int_increasing) simp_all
    then show False using k(2) assms by linarith
  qed
  then have e: "expo x = k" by (simp add: expo_def k_def)
  show "2 powi expo x \<le> \<bar>x\<bar>" "\<bar>x\<bar> < 2 powi (expo x + 1)"
    unfolding e using k by simp_all
qed

lemma expo_eqI:
  assumes "2 powi e \<le> \<bar>x\<bar>" and "\<bar>x\<bar> < 2 powi (e + 1)" and "- 1022 \<le> e"
  shows "expo x = e"
proof -
  have "(0::real) < 2 powi e" by (rule zero_less_power_int) simp
  then have pos: "0 < \<bar>x\<bar>" using assms(1) by linarith
  have "2 powr real_of_int e \<le> \<bar>x\<bar> \<and> \<bar>x\<bar> < 2 powr real_of_int (e + 1)"
    unfolding two_powr using assms(1,2) by simp
  then have "\<lfloor>log 2 \<bar>x\<bar>\<rfloor> = e"
    by (rule iffD2 [OF floor_log_eq_powr_iff [OF pos], rotated]) simp
  then show ?thesis using assms(3) by (simp add: expo_def)
qed

lemma round64_0: "round64 0 = 0"
  by (simp add: round64_def)



lemma round64_of_int:
  assumes "\<bar>k\<bar> < 2 ^ 53"
  shows "round64 (of_int k) = of_int k"
proof (cases "k = 0")
  case True
  then show ?thesis by (simp add: round64_def)
next
  case False
  define x :: real where "x = of_int k"
  have x1: "1 \<le> \<bar>x\<bar>" using False by (simp add: x_def flip: of_int_abs)
  have x2: "\<bar>x\<bar> < 2 ^ 53"
  proof -
    have "real_of_int \<bar>k\<bar> < real_of_int (2 ^ 53)" using assms by (simp only: of_int_less_iff)
    then show ?thesis by (simp add: x_def)
  qed
  have low: "2 powi (- 1022) \<le> \<bar>x\<bar>"
  proof -
    have "(2::real) powi (- 1022) \<le> 2 powi 0" by (intro power_int_increasing) simp_all
    then show ?thesis using x1 by simp
  qed
  define e where "e = expo x"
  have b: "2 powi e \<le> \<bar>x\<bar>" "\<bar>x\<bar> < 2 powi (e + 1)"
    unfolding e_def by (rule expo_bounds [OF low])+
  have e0: "0 \<le> e"
  proof (rule ccontr)
    assume "\<not> 0 \<le> e"
    then have "e + 1 \<le> 0" by simp
    then have "(2::real) powi (e + 1) \<le> 2 powi 0" by (intro power_int_increasing) simp_all
    then show False using b(2) x1 by simp
  qed
  have e52: "e \<le> 52"
  proof (rule ccontr)
    assume "\<not> e \<le> 52"
    then have "53 \<le> e" by simp
    then have "(2::real) powi 53 \<le> 2 powi e" by (intro power_int_increasing) simp_all
    then show False using b(1) x2 by simp
  qed
  define j where "j = nat (52 - e)"
  have s: "(2::real) powi (e - 52) = 1 / 2 ^ j"
    using e52 by (simp add: j_def power_int_def inverse_eq_divide power_inverse flip: power_one_over)
  have q: "x / (1 / 2 ^ j) = of_int (k * 2 ^ j)"
    by (simp add: x_def)
  have "round64 x = of_int (roundEven (x / 2 powi (e - 52))) * 2 powi (e - 52)"
    using x1 by (auto simp add: round64_def e_def)
  also have "\<dots> = of_int (k * 2 ^ j) * (1 / 2 ^ j)"
    unfolding s q roundEven_of_int ..
  also have "\<dots> = x" by (simp add: x_def)
  finally show ?thesis by (simp add: x_def)
qed









lemma roundEven_down:
  assumes "of_int f \<le> q" and "q < of_int f + 1 / 2"
  shows "roundEven q = f"
proof -
  have "\<lfloor>q\<rfloor> = f" using assms by (intro floor_unique) simp_all
  then show ?thesis using assms by (simp add: roundEven_def)
qed

lemma roundEven_tie: "even f \<Longrightarrow> roundEven (of_int f + 1 / 2) = f"
proof -
  have "\<lfloor>real_of_int f + 1 / 2\<rfloor> = f" by (intro floor_unique) simp_all
  then show "even f \<Longrightarrow> roundEven (of_int f + 1 / 2) = f"
    by (simp add: roundEven_def)
qed

text \<open>A multiple of a power of two with less than 54 bits is a \<^verbatim>\<open>float64\<close>.\<close>

lemma round64_dyadic:
  assumes "\<bar>k\<bar> < 2 ^ 53" and "- 1074 \<le> e"
  shows "round64 (of_int k * 2 powi e) = of_int k * 2 powi e"
proof (cases "k = 0")
  case True
  then show ?thesis by (simp add: round64_def)
next
  case False
  define x :: real where "x = of_int k * 2 powi e"
  have p: "(0::real) < 2 powi e" by simp
  have k1: "1 \<le> \<bar>real_of_int k\<bar>" using False by (simp flip: of_int_abs)
  have "real_of_int \<bar>k\<bar> < real_of_int (2 ^ 53)" using assms(1) by (simp only: of_int_less_iff)
  then have k2: "\<bar>real_of_int k\<bar> < 2 ^ 53" by simp
  have ax: "\<bar>x\<bar> = \<bar>real_of_int k\<bar> * 2 powi e" by (simp add: x_def abs_mult)
  have x0: "x \<noteq> 0" using False by (simp add: x_def)
  have xu: "\<bar>x\<bar> < 2 powi (e + 53)"
  proof -
    have "\<bar>x\<bar> < 2 ^ 53 * 2 powi e" unfolding ax using k2 p by (simp add: mult_strict_right_mono)
    also have "\<dots> = 2 powi (e + 53)" by (simp add: power_int_add)
    finally show ?thesis .
  qed
  define E where "E = expo x"
  have E1: "- 1022 \<le> E" by (simp add: E_def expo_def)
  have E2: "E \<le> e + 52"
  proof (cases "E = - 1022")
    case True
    then show ?thesis using assms(2) by simp
  next
    case False
    then have El: "E = \<lfloor>log 2 \<bar>x\<bar>\<rfloor>" using E1 by (simp add: E_def expo_def max_def split: if_splits)
    have "0 < \<bar>x\<bar>" using x0 by simp
    then have "2 powr real_of_int E \<le> \<bar>x\<bar>"
      using floor_log_eq_powr_iff [of "\<bar>x\<bar>" 2 E] El by simp
    then have "2 powi E \<le> \<bar>x\<bar>" by (simp only: two_powr)
    then have lt: "(2::real) powi E < 2 powi (e + 53)" using xu by linarith
    show ?thesis
    proof (rule ccontr)
      assume "\<not> E \<le> e + 52"
      then have "e + 53 \<le> E" by simp
      then have "(2::real) powi (e + 53) \<le> 2 powi E" by (intro power_int_increasing) simp_all
      then show False using lt by simp
    qed
  qed
  define j where "j = nat (e + 52 - E)"
  have "e - (E - 52) = int j" using E2 by (simp add: j_def)
  then have "(2::real) powi e / 2 powi (E - 52) = 2 powi (int j)"
    by (simp flip: power_int_diff)
  then have s: "(2::real) powi e / 2 powi (E - 52) = 2 ^ j" by simp
  have "x / 2 powi (E - 52) = of_int k * (2 powi e / 2 powi (E - 52))"
    by (simp add: x_def)
  also have "\<dots> = of_int (k * 2 ^ j)" unfolding s by simp
  finally have q: "x / 2 powi (E - 52) = of_int (k * 2 ^ j)" .
  have "round64 x = of_int (roundEven (x / 2 powi (E - 52))) * 2 powi (E - 52)"
    using x0 by (simp add: round64_def E_def)
  also have "\<dots> = of_int (k * 2 ^ j) * 2 powi (E - 52)"
    unfolding q roundEven_of_int ..
  also have "\<dots> = x / 2 powi (E - 52) * 2 powi (E - 52)" unfolding q ..
  also have "\<dots> = x" by simp
  finally show ?thesis by (simp add: x_def)
qed

lemma fold_dyadic:
  assumes "0 \<le> A" and "A + int m < 2 ^ 53" and "- 1074 \<le> e"
  shows "foldl (\<lambda>acc x. round64 (acc + x)) (of_int A * 2 powi e) (replicate m (2 powi e))
       = of_int (A + int m) * 2 powi e"
  using assms
proof (induction m arbitrary: A)
  case 0
  then show ?case by simp
next
  case (Suc m)
  have "\<bar>A + 1\<bar> < 2 ^ 53" using Suc.prems by simp
  then have r: "round64 (of_int (A + 1) * 2 powi e) = of_int (A + 1) * 2 powi e"
    using Suc.prems(3) by (rule round64_dyadic)
  have "of_int A * 2 powi e + 2 powi e = real_of_int (A + 1) * 2 powi e"
    by (simp add: algebra_simps)
  then have st: "round64 (of_int A * 2 powi e + 2 powi e) = of_int (A + 1) * 2 powi e"
    using r by simp
  have "foldl (\<lambda>acc x. round64 (acc + x)) (of_int (A + 1) * 2 powi e) (replicate m (2 powi e))
       = of_int (A + 1 + int m) * 2 powi e"
    using Suc.prems by (intro Suc.IH) simp_all
  then show ?case unfolding replicate_Suc foldl_Cons st by (simp add: algebra_simps)
qed

lemma floatSum_replicate:
  assumes "int m < 2 ^ 53" and "- 1074 \<le> e"
  shows "floatSum (replicate m (2 powi e)) = real m * 2 powi e"
  unfolding floatSum_def using fold_dyadic [of 0 m e] assms by simp

section \<open>Query C: mean and standard deviation of the runtimes\<close>

lemma wrap64_id: "- (2 ^ 63) \<le> x \<Longrightarrow> x < 2 ^ 63 \<Longrightarrow> wrap64 x = x"
  by (simp add: wrap64_def)

lemma Milliseconds_bound:
  assumes "minDuration \<le> d" and "d \<le> maxDuration"
  shows "\<bar>Milliseconds d\<bar> \<le> 9223372036854"
proof -
  have a: "x div 1000000 \<le> 9223372036854" if "x \<le> 9223372036854775808" for x :: int
    using zdiv_mono1 [OF that, of 1000000] by simp
  have b: "0 \<le> x div 1000000" if "0 \<le> x" for x :: int
    using that by (simp add: pos_imp_zdiv_nonneg_iff)
  show ?thesis
  proof (cases "d < 0")
    case True
    have "- d \<le> 9223372036854775808" using assms(1) by (simp add: minDuration_def)
    then have "- d div 1000000 \<le> 9223372036854" by (rule a)
    moreover have "0 \<le> - d div 1000000" using True by (intro b) simp
    ultimately show ?thesis using True by (simp add: Milliseconds_def)
  next
    case False
    have "d \<le> 9223372036854775808" using assms(2) by (simp add: maxDuration_def)
    then have "d div 1000000 \<le> 9223372036854" by (rule a)
    moreover have "0 \<le> d div 1000000" using False by (intro b) simp
    ultimately show ?thesis using False by (simp add: Milliseconds_def)
  qed
qed

lemma Sub_range: "minDuration \<le> Sub t u \<and> Sub t u \<le> maxDuration"
  by (simp add: Sub_def Let_def minDuration_def maxDuration_def)


lemma runtimeMs_bound: "\<bar>runtimeMs md\<bar> \<le> 9223372036854"
  unfolding runtimeMs_def using Sub_range by (intro Milliseconds_bound) simp_all

lemma runtimeMs_float: "round64 (real_of_int (runtimeMs md)) = real_of_int (runtimeMs md)"
proof (rule round64_of_int)
  show "\<bar>runtimeMs md\<bar> < 2 ^ 53" using runtimeMs_bound [of md] by simp
qed

lemma wrap64_add: "wrap64 (wrap64 a + b) = wrap64 (a + b)"
proof -
  have "(wrap64 a + b + 2 ^ 63) mod 2 ^ 64 = ((a + 2 ^ 63) mod 2 ^ 64 + b) mod 2 ^ 64"
    by (simp add: wrap64_def)
  also have "\<dots> = (a + 2 ^ 63 + b) mod 2 ^ 64" by (rule mod_add_left_eq)
  finally show ?thesis by (simp add: wrap64_def algebra_simps)
qed

lemma aggLoop_wrap:
  assumes "set ks \<subseteq> dom (threadsMetadata s)"
  shows "aggLoop s ks (wrap64 a) = wrap64 (a + (\<Sum>k\<leftarrow>ks. runtimeOf s k))"
  using assms
proof (induction ks arbitrary: a)
  case Nil
  then show ?case by simp
next
  case (Cons k ks)
  then obtain md where md: "threadsMetadata s k = Some md" by auto
  have "aggLoop s (k # ks) (wrap64 a) = aggLoop s ks (wrap64 (a + runtimeMs md))"
    using md by (simp add: wrap64_add)
  also have "\<dots> = wrap64 (a + runtimeMs md + (\<Sum>k\<leftarrow>ks. runtimeOf s k))"
    using Cons.prems by (intro Cons.IH) simp
  finally show ?case using md by (simp add: algebra_simps runtimeOf_def)
qed

lemma aggLoop_total:
  assumes "distinct ks" and "set ks = dom (threadsMetadata s)"
  shows "aggLoop s ks 0 = wrap64 (\<Sum>k \<in> dom (threadsMetadata s). runtimeOf s k)"
proof -
  have "aggLoop s ks (wrap64 0) = wrap64 (0 + (\<Sum>k\<leftarrow>ks. runtimeOf s k))"
    by (rule aggLoop_wrap) (simp add: assms(2))
  moreover have "wrap64 0 = 0" by (simp add: wrap64_def)
  ultimately show ?thesis
    using assms by (simp add: sum_list_distinct_conv_sum_set)
qed

lemma stdLoop_fold:
  assumes "set ks \<subseteq> dom (threadsMetadata s)"
  shows "stdLoop s avg ks acc =
     foldl (\<lambda>acc x. round64 (acc + x)) acc
       (map (\<lambda>k. sqDev avg (runtimeOf s k)) ks)"
  using assms
proof (induction ks arbitrary: acc)
  case Nil
  then show ?case by simp
next
  case (Cons k ks)
  then obtain md where md: "threadsMetadata s k = Some md" by auto
  show ?case using Cons md by (simp add: runtimeOf_def)
qed

lemma stdLoop_floatSum:
  assumes "set ks \<subseteq> dom (threadsMetadata s)"
  shows "stdLoop s avg ks 0 =
     floatSum (map (\<lambda>k. sqDev avg (runtimeOf s k)) ks)"
  unfolding floatSum_def by (rule stdLoop_fold [OF assms])

lemma avg_std_form:
  assumes "distinct ks1" and "set ks1 = dom (threadsMetadata s)"
      and "set ks2 = dom (threadsMetadata s)"
      and "dom (threadsMetadata s) \<noteq> {}"
      and "avg = round64 (round64 (real_of_int (wrap64
                   (\<Sum>k \<in> dom (threadsMetadata s). runtimeOf s k)))
                 / round64 (real (card (dom (threadsMetadata s)))))"
  shows "GetAvgStdThreadRuntime ks1 ks2 s =
      Some (avg,
        round64 (sqrt (round64
          (floatSum (map (\<lambda>k. sqDev avg (runtimeOf s k)) ks2)
             / round64 (real (card (dom (threadsMetadata s))))))))"
proof -
  let ?m = "threadsMetadata s"
  have len: "length ks1 = card (dom ?m)"
    using assms(1,2) by (metis distinct_card)
  have "set ks1 \<noteq> {}" using assms(2,4) by simp
  then have pos: "length ks1 \<noteq> 0" by simp
  have agg: "aggLoop s ks1 0 = wrap64 (\<Sum>k \<in> dom ?m. runtimeOf s k)"
    by (rule aggLoop_total [OF assms(1,2)])
  have std: "stdLoop s a ks2 0 = floatSum (map (\<lambda>k. sqDev a (runtimeOf s k)) ks2)" for a
    by (rule stdLoop_floatSum) (simp add: assms(3))
  have pos': "card (dom ?m) \<noteq> 0" using pos len by simp
  show ?thesis
    unfolding GetAvgStdThreadRuntime_def Let_def agg len std assms(5)
    using pos' by (simp only: if_False)
qed

lemma avg_std_empty: "GetAvgStdThreadRuntime [] ks2 s = None"
  by (simp add: GetAvgStdThreadRuntime_def)







lemma round64_1: "round64 1 = 1"
  using round64_of_int [of 1] by simp

lemma single_thread_stats:
  "GetAvgStdThreadRuntime [k] [k] \<lparr>threadsMetadata = [k \<mapsto> md]\<rparr>
     = Some (real_of_int (runtimeMs md), 0)"
proof -
  have w: "wrap64 (runtimeMs md) = runtimeMs md"
    using runtimeMs_bound [of md] by (intro wrap64_id) simp_all
  have d: "sqDev (real_of_int (runtimeMs md)) (runtimeMs md) = 0"
    by (simp add: sqDev_def Let_def runtimeMs_float round64_0)
  show ?thesis
    by (simp add: GetAvgStdThreadRuntime_def Let_def w round64_1 runtimeMs_float d round64_0)
qed




















text \<open>
  The rounding shows in the results: 1955 threads with the runtime 9223372036854 ms
  each have the mean 9223372036854 and the deviation 0.  Their sum 18031692332049570
  is a tie between two \<^verbatim>\<open>float64\<close> values and becomes 18031692332049568; the
  quotient by 1955 is rounded to \<open>9223372036854 - 1 / 512\<close>, every deviation from it is
  \<open>1 / 512\<close>, and so is the second result.
\<close>

lemma rounded_statistics:
  assumes "distinct ks1" and "set ks1 = dom (threadsMetadata s)"
      and "distinct ks2" and "set ks2 = dom (threadsMetadata s)"
      and "card (dom (threadsMetadata s)) = 1955"
      and "\<forall>k \<in> dom (threadsMetadata s). runtimeOf s k = 9223372036854"
  shows "GetAvgStdThreadRuntime ks1 ks2 s = Some (9223372036854 - 1 / 512, 1 / 512)"
    and "arithMean s = 9223372036854" and "popStdDev s = 0"
proof -
  let ?m = "threadsMetadata s"
  have ne: "dom ?m \<noteq> {}" using assms(5) by auto
  have S: "runtimeSum s = 18031692332049570"
    unfolding runtimeSum_def using assms(5,6) by simp
  have w: "wrap64 18031692332049570 = 18031692332049570" by (simp add: wrap64_def)
  have e1: "expo 18031692332049570 = 54" by (rule expo_eqI) simp_all
  have t1: "roundEven (real_of_int 4507923083012392 + 1 / 2) = 4507923083012392"
    by (rule roundEven_tie) simp
  have r1: "round64 18031692332049570 = 18031692332049568"
    unfolding round64_def e1 using t1 by simp
  have r2: "round64 1955 = 1955" using round64_of_int [of 1955] by simp
  have e2: "expo (18031692332049568 / 1955) = 43" by (rule expo_eqI) simp_all
  have t2: "roundEven (18031692332049568 / 1955 / (1 / 512)) = 4722366482869247"
    by (rule roundEven_down) simp_all
  have r3: "round64 (18031692332049568 / 1955) = 4722366482869247 / 512"
    unfolding round64_def e2 using t2 by (simp add: power_int_minus)
  define avg :: real where "avg = 4722366482869247 / 512"
  have avg: "avg = round64 (round64 (real_of_int (wrap64 (\<Sum>k \<in> dom ?m. runtimeOf s k)))
                 / round64 (real (card (dom ?m))))"
    unfolding runtimeSum_def [symmetric] S w assms(5) by (simp add: r1 r2 r3 avg_def)
  have r4: "round64 (- (1 / 512)) = - (1 / 512)"
    using round64_dyadic [of "- 1" "- 9"] by (simp add: power_int_minus)
  have r5: "round64 (1 / 262144) = 1 / 262144"
    using round64_dyadic [of 1 "- 18"] by (simp add: power_int_minus)
  have r6: "round64 9223372036854 = 9223372036854"
    using round64_of_int [of 9223372036854] by simp
  have sq: "sqDev avg 9223372036854 = 2 powi (- 18)"
    by (simp add: sqDev_def Let_def avg_def r4 r5 r6 power_int_minus)
  have len: "length ks2 = 1955" using assms(3,4,5) by (metis distinct_card)
  have "map (\<lambda>k. sqDev avg (runtimeOf s k)) ks2 = map (\<lambda>k. 2 powi (- 18)) ks2"
    by (rule map_cong [OF refl]) (use assms(4,6) sq in simp)
  also have "\<dots> = replicate 1955 (2 powi (- 18))"
    by (simp add: map_replicate_const len)
  finally have mp: "map (\<lambda>k. sqDev avg (runtimeOf s k)) ks2 = replicate 1955 (2 powi (- 18))" .
  have fr: "floatSum (replicate 1955 (2 powi (- 18))) = real 1955 * 2 powi (- 18)"
    by (rule floatSum_replicate) simp_all
  have fs: "floatSum (map (\<lambda>k. sqDev avg (runtimeOf s k)) ks2) = 1955 / 262144"
    unfolding mp fr by (simp add: power_int_minus)
  have sr: "sqrt (1 / 262144) = 1 / 512"
    by (rule real_sqrt_unique) (simp_all add: power2_eq_square)
  have r7: "round64 (1 / 512) = 1 / 512"
    using round64_dyadic [of 1 "- 9"] by (simp add: power_int_minus)
  have "GetAvgStdThreadRuntime ks1 ks2 s =
      Some (avg, round64 (sqrt (round64
          (floatSum (map (\<lambda>k. sqDev avg (runtimeOf s k)) ks2)
             / round64 (real (card (dom ?m)))))))"
    by (rule avg_std_form [OF assms(1,2,4) ne avg])
  then show "GetAvgStdThreadRuntime ks1 ks2 s = Some (9223372036854 - 1 / 512, 1 / 512)"
    unfolding fs assms(5) by (simp add: r2 r5 sr r7 avg_def)
  show m: "arithMean s = 9223372036854"
    unfolding arithMean_def S assms(5) by simp
  show "popStdDev s = 0"
    unfolding popStdDev_def m using assms(6) by simp
qed

section \<open>The five outcomes of \<^verbatim>\<open>Write\<close>\<close>

lemma markers_differ: "threadLogsStartMarker \<noteq> threadLogsEndMarker"
  by (simp add: threadLogsStartMarker_def threadLogsEndMarker_def)


lemma Write_closed:
  assumes "threadsMetadata (slw w) (threadID ll) = Some th" and "logFd th = None"
  shows "Write w ll = (Some (WriteErr (logFilepath th)), w)"
  using assms by (simp add: Write_def writeLogLine_def)

lemma Write_open:
  assumes "threadsMetadata (slw w) (threadID ll) = Some th" and "logFd th = Some fd"
  shows "Write w ll =
     (None,
      if message ll = threadLogsEndMarker
      then setMeta (appendLine w fd ll) (threadID ll)
             (th\<lparr>logsEndTimestamp := timestamp ll, logFd := None\<rparr>)
      else appendLine w fd ll)"
  using assms by (simp add: Write_def writeLogLine_def appendLine_def Let_def)

lemma Write_invalid:
  assumes "threadsMetadata (slw w) (threadID ll) = None"
      and "message ll \<noteq> threadLogsStartMarker"
  shows "Write w ll = (Some (InitWrapped InvalidStart), w)"
  using assms by (simp add: Write_def initialize_def)

lemma Write_unopenable:
  assumes "threadsMetadata (slw w) (threadID ll) = None"
      and "message ll = threadLogsStartMarker"
      and "openFails w (threadPath (processID ll) (threadID ll))"
  shows "Write w ll =
     (Some (InitWrapped (OpenFileErr (threadPath (processID ll) (threadID ll)))), w)"
  using assms by (simp add: Write_def initialize_def threadPath_def Let_def)

lemma Write_new:
  assumes "threadsMetadata (slw w) (threadID ll) = None"
      and "message ll = threadLogsStartMarker"
      and "\<not> openFails w (threadPath (processID ll) (threadID ll))"
  shows "Write w ll =
     (None,
      setMeta (appendLine w (threadPath (processID ll) (threadID ll)) ll) (threadID ll)
        \<lparr>processId = processID ll, logsStartTimestamp = timestamp ll,
         logsEndTimestamp = zeroTime,
         logFd = Some (threadPath (processID ll) (threadID ll)),
         logFilepath = threadPath (processID ll) (threadID ll)\<rparr>)"
proof -
  let ?p = "threadPath (processID ll) (threadID ll)"
  have ne: "message ll \<noteq> threadLogsEndMarker" using assms(2) markers_differ by simp
  show ?thesis
    using assms ne
    by (simp add: Write_def initialize_def writeLogLine_def threadPath_def Let_def
        setMeta_def appendLine_def content_def)
qed


lemma Write_cases:
  obtains (closed) th where "threadsMetadata (slw w) (threadID ll) = Some th" "logFd th = None"
      "Write w ll = (Some (WriteErr (logFilepath th)), w)"
  | (opened) th fd where "threadsMetadata (slw w) (threadID ll) = Some th" "logFd th = Some fd"
      "Write w ll =
         (None,
          if message ll = threadLogsEndMarker
          then setMeta (appendLine w fd ll) (threadID ll)
                 (th\<lparr>logsEndTimestamp := timestamp ll, logFd := None\<rparr>)
          else appendLine w fd ll)"
  | (invalid) "threadsMetadata (slw w) (threadID ll) = None"
      "message ll \<noteq> threadLogsStartMarker"
      "Write w ll = (Some (InitWrapped InvalidStart), w)"
  | (unopenable) "threadsMetadata (slw w) (threadID ll) = None"
      "message ll = threadLogsStartMarker"
      "openFails w (threadPath (processID ll) (threadID ll))"
      "Write w ll =
         (Some (InitWrapped (OpenFileErr (threadPath (processID ll) (threadID ll)))), w)"
  | (new) "threadsMetadata (slw w) (threadID ll) = None"
      "message ll = threadLogsStartMarker"
      "\<not> openFails w (threadPath (processID ll) (threadID ll))"
      "Write w ll =
         (None,
          setMeta (appendLine w (threadPath (processID ll) (threadID ll)) ll) (threadID ll)
            \<lparr>processId = processID ll, logsStartTimestamp = timestamp ll,
             logsEndTimestamp = zeroTime,
             logFd = Some (threadPath (processID ll) (threadID ll)),
             logFilepath = threadPath (processID ll) (threadID ll)\<rparr>)"
proof (cases "threadsMetadata (slw w) (threadID ll)")
  case None
  show ?thesis
  proof (cases "message ll = threadLogsStartMarker")
    case False
    show ?thesis by (rule invalid [OF None False Write_invalid [OF None False]])
  next
    case True
    show ?thesis
    proof (cases "openFails w (threadPath (processID ll) (threadID ll))")
      case op: True
      show ?thesis by (rule unopenable [OF None True op Write_unopenable [OF None True op]])
    next
      case op: False
      show ?thesis by (rule new [OF None True op Write_new [OF None True op]])
    qed
  qed
next
  case (Some th)
  note th = Some
  show ?thesis
  proof (cases "logFd th")
    case None
    show ?thesis by (rule closed [OF th None Write_closed [OF th None]])
  next
    case (Some fd)
    show ?thesis by (rule opened [OF th Some Write_open [OF th Some]])
  qed
qed

lemma slw_appendLine [simp]: "slw (appendLine w p ll) = slw w"
  by (simp add: appendLine_def)

lemma openFails_appendLine [simp]: "openFails (appendLine w p ll) = openFails w"
  by (simp add: appendLine_def)

lemma meta_setMeta [simp]:
  "threadsMetadata (slw (setMeta w k md)) = (threadsMetadata (slw w))(k \<mapsto> md)"
  by (simp add: setMeta_def)

lemma files_setMeta [simp]: "files (setMeta w k md) = files w"
  by (simp add: setMeta_def)

lemma openFails_setMeta [simp]: "openFails (setMeta w k md) = openFails w"
  by (simp add: setMeta_def)

lemma content_setMeta [simp]: "content (setMeta w k md) p = content w p"
  by (simp add: content_def)

lemma content_appendLine:
  "content (appendLine w p ll) q
     = (if q = p then content w p @ String ll @ [CHR 0x0A] else content w q)"
  by (simp add: content_def appendLine_def)

section \<open>Segments without an end marker\<close>

lemma Write_keeps_zero_end:
  assumes "Write w ll = (e, w')"
      and "threadID ll = k \<longrightarrow> message ll \<noteq> threadLogsEndMarker"
      and "\<forall>md. threadsMetadata (slw w) k = Some md \<longrightarrow> logsEndTimestamp md = zeroTime"
  shows "\<forall>md. threadsMetadata (slw w') k = Some md \<longrightarrow> logsEndTimestamp md = zeroTime"
proof (cases rule: Write_cases [of w ll])
  case (closed th)
  then have "w' = w" using assms(1) by simp
  then show ?thesis using assms(3) by simp
next
  case (opened th fd)
  show ?thesis
  proof (cases "message ll = threadLogsEndMarker")
    case True
    then have w': "w' = setMeta (appendLine w fd ll) (threadID ll)
        (th\<lparr>logsEndTimestamp := timestamp ll, logFd := None\<rparr>)"
      using opened(3) assms(1) by simp
    have "threadID ll \<noteq> k" using True assms(2) by blast
    then show ?thesis unfolding w' using assms(3) by simp
  next
    case False
    then have w': "w' = appendLine w fd ll" using opened(3) assms(1) by simp
    show ?thesis unfolding w' using assms(3) by simp
  qed
next
  case invalid
  then have "w' = w" using assms(1) by simp
  then show ?thesis using assms(3) by simp
next
  case unopenable
  then have "w' = w" using assms(1) by simp
  then show ?thesis using assms(3) by simp
next
  case new
  then have w': "w' = setMeta (appendLine w (threadPath (processID ll) (threadID ll)) ll)
      (threadID ll)
      \<lparr>processId = processID ll, logsStartTimestamp = timestamp ll,
       logsEndTimestamp = zeroTime,
       logFd = Some (threadPath (processID ll) (threadID ll)),
       logFilepath = threadPath (processID ll) (threadID ll)\<rparr>"
    using assms(1) by simp
  show ?thesis unfolding w' using assms(3) by auto
qed

lemma writeAll_keeps_zero_end:
  assumes "\<forall>ll \<in> set lls. threadID ll = k \<longrightarrow> message ll \<noteq> threadLogsEndMarker"
      and "\<forall>md. threadsMetadata (slw w) k = Some md \<longrightarrow> logsEndTimestamp md = zeroTime"
  shows "\<forall>md. threadsMetadata (slw (snd (writeAll w lls))) k = Some md
           \<longrightarrow> logsEndTimestamp md = zeroTime"
  using assms
proof (induction lls arbitrary: w)
  case Nil
  then show ?case by simp
next
  case (Cons ll lls)
  obtain e w' where W: "Write w ll = (e, w')" by (cases "Write w ll")
  have a: "threadID ll = k \<longrightarrow> message ll \<noteq> threadLogsEndMarker"
    using Cons.prems(1) by simp
  have b: "\<forall>ll \<in> set lls. threadID ll = k \<longrightarrow> message ll \<noteq> threadLogsEndMarker"
    using Cons.prems(1) by simp
  have c: "\<forall>md. threadsMetadata (slw w') k = Some md \<longrightarrow> logsEndTimestamp md = zeroTime"
    by (rule Write_keeps_zero_end [OF W a Cons.prems(2)])
  have eq: "snd (writeAll w (ll # lls)) = snd (writeAll w' lls)"
    using W by (simp split: prod.splits)
  show ?case unfolding eq by (rule Cons.IH [OF b c])
qed

lemma active_excludes:
  assumes "threadsMetadata s k = Some md" and "After t1 (logsEndTimestamp md)"
  shows "\<forall>i \<in> set (GetActiveThreadCountBetweenInterval ks s t1 t2). ThreadId i \<noteq> k"
  unfolding GetActiveThreadCountBetweenInterval_def activeLoop_set
  using assms by auto


lemma runtimeMs_open:
  assumes "logsEndTimestamp md = zeroTime"
  shows "runtimeMs md
     = Milliseconds (max minDuration (min maxDuration (- absNs (logsStartTimestamp md))))"
  using assms
  by (auto simp: runtimeMs_def Sub_def Let_def absNs_zeroTime minDuration_def maxDuration_def)

lemma runtimeMs_open_saturated:
  assumes "logsEndTimestamp md = zeroTime" and "2 ^ 63 \<le> absNs (logsStartTimestamp md)"
  shows "runtimeMs md = - 9223372036854"
  using assms
  by (simp add: runtimeMs_def Sub_def Let_def absNs_zeroTime minDuration_def maxDuration_def
      Milliseconds_def)

lemma start_only_state:
  "slw (snd (writeAll freshWorld [startOnly]))
     = \<lparr>threadsMetadata = [''t1'' \<mapsto> openSegment ''p'' ''t1'' (clock 18 59 25 200)]\<rparr>"
  by (simp add: Write_def initialize_def writeLogLine_def setMeta_def freshWorld_def
      NewLogWriter_def startOnly_def threadLogsStartMarker_def threadLogsEndMarker_def
      openSegment_def threadPath_def Let_def)

lemma start_only_runtime:
  "runtimeMs (openSegment ''p'' ''t1'' (clock 18 59 25 200)) = - 9223372036854"
  by (simp add: runtimeMs_def openSegment_def Sub_def Let_def absNs_zeroTime absNs_clock
      minDuration_def maxDuration_def Milliseconds_def)

text \<open>
  Claim C10, as stated, fails in its last part.  After the single start record of
  \<open>startOnly\<close> (18:59:25,200 on 2020-08-09) the segment is open and its end is the zero
  time; the runtime that enters the mean is -9223372036854 ms, the least \<^verbatim>\<open>Duration\<close>
  in milliseconds, and not the zero time minus the start, which is -63732596365200 ms.
\<close>

theorem open_segment_runtime_counterexample:
  "threadsMetadata (slw (snd (writeAll freshWorld [startOnly]))) ''t1''
     = Some (openSegment ''p'' ''t1'' (clock 18 59 25 200))
   \<and> logsEndTimestamp (openSegment ''p'' ''t1'' (clock 18 59 25 200)) = zeroTime
   \<and> GetAvgStdThreadRuntime [''t1''] [''t1''] (slw (snd (writeAll freshWorld [startOnly])))
       = Some (- 9223372036854, 0)
   \<and> Milliseconds (absNs zeroTime - absNs (clock 18 59 25 200)) = - 63732596365200"
proof -
  have a: "GetAvgStdThreadRuntime [''t1''] [''t1''] (slw (snd (writeAll freshWorld [startOnly])))
       = Some (- 9223372036854, 0)"
    unfolding start_only_state single_thread_stats start_only_runtime by simp
  have b: "Milliseconds (absNs zeroTime - absNs (clock 18 59 25 200)) = - 63732596365200"
    by (simp add: Milliseconds_def absNs_zeroTime absNs_clock)
  have st: "threadsMetadata (slw (snd (writeAll freshWorld [startOnly]))) ''t1''
     = Some (openSegment ''p'' ''t1'' (clock 18 59 25 200))"
    unfolding start_only_state by simp
  have e: "logsEndTimestamp (openSegment ''p'' ''t1'' (clock 18 59 25 200)) = zeroTime"
    by (simp add: openSegment_def)
  show ?thesis using st e a b by blast
qed

text \<open>
  Claim C10, amended.  A thread first seen in a sequence of records that holds no end
  marker for it keeps the zero time as its end.  Then no range that starts after the
  zero time reports it; its runtime is the zero time minus its start limited to the
  range of a \<^verbatim>\<open>Duration\<close>, in whole milliseconds, which is -9223372036854 ms for every
  start \<open>2 ^ 63\<close> ns or more after the zero time; and under any orders of the two
  visits \<^verbatim>\<open>GetAvgStdThreadRuntime\<close> counts the thread among the \<open>n\<close> it divides by, adds
  that runtime to the \<^verbatim>\<open>int64\<close> sum behind the mean, and adds the squared deviation of
  that runtime, once, at the place of the thread in the second visit, to the \<^verbatim>\<open>float64\<close>
  sum behind the standard deviation.
\<close>

theorem open_segment_queries:
  assumes "threadsMetadata (slw w0) k = None"
      and "\<forall>ll \<in> set lls. threadID ll = k \<longrightarrow> message ll \<noteq> threadLogsEndMarker"
      and "s = slw (snd (writeAll w0 lls))"
      and "threadsMetadata s k = Some md"
      and "distinct ks1" and "set ks1 = dom (threadsMetadata s)"
      and "distinct ks2" and "set ks2 = dom (threadsMetadata s)"
  shows "logsEndTimestamp md = zeroTime
     \<and> (After t1 zeroTime \<longrightarrow>
          (\<forall>i \<in> set (GetActiveThreadCountBetweenInterval ks s t1 t2). ThreadId i \<noteq> k))
     \<and> runtimeMs md
         = Milliseconds (max minDuration (min maxDuration (- absNs (logsStartTimestamp md))))
     \<and> (2 ^ 63 \<le> absNs (logsStartTimestamp md) \<longrightarrow> runtimeMs md = - 9223372036854)
     \<and> (\<exists>avg std pre post. GetAvgStdThreadRuntime ks1 ks2 s = Some (avg, std)
          \<and> avg = round64 (round64 (real_of_int (wrap64
                     (runtimeMs md + (\<Sum>j \<in> dom (threadsMetadata s) - {k}. runtimeOf s j))))
                   / round64 (real (card (dom (threadsMetadata s)))))
          \<and> ks2 = pre @ k # post \<and> k \<notin> set pre \<and> k \<notin> set post
          \<and> std = round64 (sqrt (round64
                (floatSum (map (\<lambda>j. sqDev avg (runtimeOf s j)) pre
                           @ sqDev avg (runtimeMs md)
                           # map (\<lambda>j. sqDev avg (runtimeOf s j)) post)
                   / round64 (real (card (dom (threadsMetadata s))))))))"
proof -
  let ?m = "threadsMetadata s"
  have z0: "\<forall>md. threadsMetadata (slw w0) k = Some md \<longrightarrow> logsEndTimestamp md = zeroTime"
    using assms(1) by simp
  have "\<forall>md. threadsMetadata (slw (snd (writeAll w0 lls))) k = Some md
           \<longrightarrow> logsEndTimestamp md = zeroTime"
    by (rule writeAll_keeps_zero_end [OF assms(2) z0])
  then have e: "logsEndTimestamp md = zeroTime"
    using assms(3,4) by blast
  have a: "After t1 zeroTime \<longrightarrow>
          (\<forall>i \<in> set (GetActiveThreadCountBetweenInterval ks s t1 t2). ThreadId i \<noteq> k)"
    using active_excludes [OF assms(4), of t1 ks t2] e by simp
  have r1: "runtimeMs md
         = Milliseconds (max minDuration (min maxDuration (- absNs (logsStartTimestamp md))))"
    by (rule runtimeMs_open [OF e])
  have r2: "2 ^ 63 \<le> absNs (logsStartTimestamp md) \<longrightarrow> runtimeMs md = - 9223372036854"
    using runtimeMs_open_saturated [OF e] by blast
  have fin: "finite (dom ?m)" using assms(6) by (metis List.finite_set)
  have kd: "k \<in> dom ?m" using assms(4) by blast
  then have ne: "dom ?m \<noteq> {}" by blast
  have rk: "runtimeOf s k = runtimeMs md" using assms(4) by (simp add: runtimeOf_def)
  have split: "(\<Sum>j \<in> dom ?m. runtimeOf s j)
      = runtimeMs md + (\<Sum>j \<in> dom ?m - {k}. runtimeOf s j)"
    unfolding rk [symmetric] by (rule sum.remove [OF fin kd])
  define avg where "avg = round64 (round64 (real_of_int (wrap64
                     (runtimeMs md + (\<Sum>j \<in> dom ?m - {k}. runtimeOf s j))))
                   / round64 (real (card (dom ?m))))"
  have avg': "avg = round64 (round64 (real_of_int (wrap64 (\<Sum>j \<in> dom ?m. runtimeOf s j)))
                   / round64 (real (card (dom ?m))))"
    unfolding split by (rule avg_def)
  have "k \<in> set ks2" using kd assms(8) by simp
  then obtain pre post where ks2: "ks2 = pre @ k # post"
    by (auto dest: split_list)
  have nk: "k \<notin> set pre" "k \<notin> set post"
    using assms(7) unfolding ks2 by simp_all
  define std where "std = round64 (sqrt (round64
                (floatSum (map (\<lambda>j. sqDev avg (runtimeOf s j)) pre
                           @ sqDev avg (runtimeMs md)
                           # map (\<lambda>j. sqDev avg (runtimeOf s j)) post)
                   / round64 (real (card (dom ?m))))))"
  have "GetAvgStdThreadRuntime ks1 ks2 s =
      Some (avg, round64 (sqrt (round64
          (floatSum (map (\<lambda>k. sqDev avg (runtimeOf s k)) ks2)
             / round64 (real (card (dom ?m)))))))"
    by (rule avg_std_form [OF assms(5,6,8) ne avg'])
  then have g: "GetAvgStdThreadRuntime ks1 ks2 s = Some (avg, std)"
    unfolding std_def ks2 by (simp add: rk)
  have stats: "\<exists>avg std pre post. GetAvgStdThreadRuntime ks1 ks2 s = Some (avg, std)
          \<and> avg = round64 (round64 (real_of_int (wrap64
                     (runtimeMs md + (\<Sum>j \<in> dom ?m - {k}. runtimeOf s j))))
                   / round64 (real (card (dom ?m))))
          \<and> ks2 = pre @ k # post \<and> k \<notin> set pre \<and> k \<notin> set post
          \<and> std = round64 (sqrt (round64
                (floatSum (map (\<lambda>j. sqDev avg (runtimeOf s j)) pre
                           @ sqDev avg (runtimeMs md)
                           # map (\<lambda>j. sqDev avg (runtimeOf s j)) post)
                   / round64 (real (card (dom ?m))))))"
    by (rule exI [of _ avg], rule exI [of _ std], rule exI [of _ pre], rule exI [of _ post])
      (intro conjI g avg_def ks2 nk std_def)
  show ?thesis by (intro conjI e a r1 r2 stats)
qed

text \<open>
  The start record of \<open>startOnly\<close>: the thread is absent from every range that starts
  after the zero time, and the statistics are the mean -9223372036854 and the
  deviation 0.
\<close>

theorem open_segment_queries_witness:
  "threadsMetadata (slw freshWorld) ''t1'' = None
   \<and> threadID startOnly = ''t1'' \<and> message startOnly \<noteq> threadLogsEndMarker
   \<and> threadsMetadata (slw (snd (writeAll freshWorld [startOnly]))) ''t1''
       = Some (openSegment ''p'' ''t1'' (clock 18 59 25 200))
   \<and> distinct [''t1'']
   \<and> set [''t1''] = dom (threadsMetadata (slw (snd (writeAll freshWorld [startOnly]))))
   \<and> After (clock 0 0 0 1) zeroTime
   \<and> 2 ^ 63 \<le> absNs (logsStartTimestamp (openSegment ''p'' ''t1'' (clock 18 59 25 200)))
   \<and> logsEndTimestamp (openSegment ''p'' ''t1'' (clock 18 59 25 200)) = zeroTime
   \<and> GetActiveThreadCountBetweenInterval [''t1''] (slw (snd (writeAll freshWorld [startOnly])))
        (clock 0 0 0 1) (clock 23 59 59 999) = []
   \<and> runtimeMs (openSegment ''p'' ''t1'' (clock 18 59 25 200)) = - 9223372036854
   \<and> GetAvgStdThreadRuntime [''t1''] [''t1''] (slw (snd (writeAll freshWorld [startOnly])))
       = Some (- 9223372036854, 0)"
proof -
  let ?s = "slw (snd (writeAll freshWorld [startOnly]))"
  let ?md = "openSegment ''p'' ''t1'' (clock 18 59 25 200)"
  have h1: "threadsMetadata (slw freshWorld) ''t1'' = None"
    by (simp add: freshWorld_def NewLogWriter_def)
  have h2: "\<forall>ll \<in> set [startOnly]. threadID ll = ''t1'' \<longrightarrow> message ll \<noteq> threadLogsEndMarker"
    by (simp add: startOnly_def threadLogsEndMarker_def)
  have h2': "threadID startOnly = ''t1'' \<and> message startOnly \<noteq> threadLogsEndMarker"
    by (simp add: startOnly_def threadLogsEndMarker_def)
  have h3: "?s = slw (snd (writeAll freshWorld [startOnly]))" by simp
  have h4: "threadsMetadata ?s ''t1'' = Some ?md"
    unfolding start_only_state by simp
  have d: "dom (threadsMetadata ?s) = {''t1''}"
    unfolding start_only_state by simp
  have h5: "distinct [''t1'']" by simp
  have h6: "set [''t1''] = dom (threadsMetadata ?s)" unfolding d by simp
  have af: "After (clock 0 0 0 1) zeroTime"
    by (simp add: After_def absNs_zeroTime absNs_clock)
  have big: "2 ^ 63 \<le> absNs (logsStartTimestamp ?md)"
    by (simp add: openSegment_def absNs_clock)
  note inst = open_segment_queries [OF h1 h2 h3 h4 h5 h6 h5 h6,
      of "clock 0 0 0 1" "[''t1'']" "clock 23 59 59 999"]
  have e: "logsEndTimestamp ?md = zeroTime" using inst by blast
  have "\<forall>i \<in> set (GetActiveThreadCountBetweenInterval [''t1''] ?s
        (clock 0 0 0 1) (clock 23 59 59 999)). ThreadId i \<noteq> ''t1''"
    using inst af by blast
  moreover have "\<forall>i \<in> set (GetActiveThreadCountBetweenInterval [''t1''] ?s
        (clock 0 0 0 1) (clock 23 59 59 999)). ThreadId i = ''t1''"
    unfolding GetActiveThreadCountBetweenInterval_def activeLoop_set by auto
  ultimately have act: "GetActiveThreadCountBetweenInterval [''t1''] ?s
        (clock 0 0 0 1) (clock 23 59 59 999) = []"
    by (cases "GetActiveThreadCountBetweenInterval [''t1''] ?s
        (clock 0 0 0 1) (clock 23 59 59 999)") auto
  have r: "runtimeMs ?md = - 9223372036854" using inst big by blast
  obtain avg std pre post where g: "GetAvgStdThreadRuntime [''t1''] [''t1''] ?s = Some (avg, std)"
     and avg: "avg = round64 (round64 (real_of_int (wrap64
                     (runtimeMs ?md + (\<Sum>j \<in> dom (threadsMetadata ?s) - {''t1''}. runtimeOf ?s j))))
                   / round64 (real (card (dom (threadsMetadata ?s)))))"
     and ks: "[''t1''] = pre @ ''t1'' # post"
     and std: "std = round64 (sqrt (round64
                (floatSum (map (\<lambda>j. sqDev avg (runtimeOf ?s j)) pre
                           @ sqDev avg (runtimeMs ?md)
                           # map (\<lambda>j. sqDev avg (runtimeOf ?s j)) post)
                   / round64 (real (card (dom (threadsMetadata ?s)))))))"
    using inst by blast
  have pp: "pre = []" "post = []" using ks by (simp_all add: Cons_eq_append_conv)
  have rr: "round64 (- 9223372036854) = - 9223372036854"
    using round64_of_int [of "- 9223372036854"] by simp
  have avg': "avg = - 9223372036854"
    unfolding avg d r by (simp add: wrap64_def round64_1 rr)
  have std': "std = 0"
    unfolding std pp avg' r d
    by (simp add: floatSum_def sqDev_def Let_def rr round64_0 round64_1)
  have res: "GetAvgStdThreadRuntime [''t1''] [''t1''] ?s = Some (- 9223372036854, 0)"
    using g unfolding avg' std' .
  show ?thesis using h1 h2' h4 h5 h6 af big e act r res by blast
qed

section \<open>Errors while reading the files\<close>

lemma garbage_rejected: "ParseLogline ''not a log line'' = Inl LogLineParseErr"
  by (simp add: ParseLogline_def splitLogline_def SplitN2_def)

lemma start_line_parsed:
  "ParseLogline ''p:t1::n 2020-08-09 18:59:25,200 - **START**'' = Inr startOnly"
  by (simp add: parse_defs clock_def startOnly_def)

lemma ProcessRawLogFiles_returns_nil:
  "fst (ProcessRawLogFiles (Some entries) w) = None"
  by (simp add: ProcessRawLogFiles_def)

text \<open>
  Claim C2.  The only line of \<open>garbageFile\<close> fails to parse and
  \<^verbatim>\<open>convertProcessLogFile\<close> returns the parse error at that line, leaving the world as it
  was.  \<^verbatim>\<open>ProcessRawLogFiles\<close> drops that value: on the directory holding this file it
  returns no error, it goes on to the next file (whose start record is written), and
  whatever the files of a readable directory hold it never returns an error.
\<close>

theorem ingestion_error_not_surfaced:
  "convertProcessLogFile garbageFile freshWorld = (Some LogLineParseErr, freshWorld)
   \<and> ProcessRawLogFiles (Some [garbageFile]) freshWorld = (None, freshWorld)
   \<and> fst (ProcessRawLogFiles (Some [garbageFile, startFile]) freshWorld) = None
   \<and> slw (snd (ProcessRawLogFiles (Some [garbageFile, startFile]) freshWorld))
       = \<lparr>threadsMetadata = [''t1'' \<mapsto> openSegment ''p'' ''t1'' (clock 18 59 25 200)]\<rparr>
   \<and> (\<forall>entries w. fst (ProcessRawLogFiles (Some entries) w) = None)"
proof -
  have a: "convertProcessLogFile garbageFile freshWorld = (Some LogLineParseErr, freshWorld)"
    by (simp add: convertProcessLogFile_def garbageFile_def garbage_rejected)
  have b: "ProcessRawLogFiles (Some [garbageFile]) freshWorld = (None, freshWorld)"
    by (simp add: ProcessRawLogFiles_def a)
  obtain w1 where w1: "Write freshWorld startOnly = (None, w1)"
    using Write_new [of freshWorld startOnly]
    by (simp add: freshWorld_def NewLogWriter_def startOnly_def threadLogsStartMarker_def)
  have c: "convertProcessLogFile startFile freshWorld = (None, snd (writeAll freshWorld [startOnly]))"
    by (simp add: convertProcessLogFile_def startFile_def start_line_parsed w1)
  have d: "slw (snd (ProcessRawLogFiles (Some [garbageFile, startFile]) freshWorld))
       = \<lparr>threadsMetadata = [''t1'' \<mapsto> openSegment ''p'' ''t1'' (clock 18 59 25 200)]\<rparr>"
  proof -
    have "snd (ProcessRawLogFiles (Some [garbageFile, startFile]) freshWorld)
        = snd (writeAll freshWorld [startOnly])"
      by (simp add: ProcessRawLogFiles_def a c del: writeAll.simps)
    then show ?thesis by (simp only: start_only_state)
  qed
  show ?thesis using a b d by (simp add: ProcessRawLogFiles_def)
qed


section \<open>Parsing a rendered line\<close>

subsection \<open>The first occurrence of a separator\<close>

lemma is_prefix_drop: "is_prefix p x \<Longrightarrow> x = p @ drop (length p) x"
  by (induction p x rule: is_prefix.induct) auto

lemma cut_here:
  "is_prefix sep (c # cs) \<Longrightarrow> cut sep (c # cs) = Some ([], drop (length sep) (c # cs))"
  by simp

lemma cut_later:
  "\<not> is_prefix sep (c # cs) \<Longrightarrow>
     cut sep (c # cs) = (case cut sep cs of None \<Rightarrow> None | Some (b, a) \<Rightarrow> Some (c # b, a))"
  by simp

lemma cut_append:
  assumes "cut sep s = Some (b, a)"
  shows "s = b @ sep @ a"
  using assms
proof (induction s arbitrary: b)
  case Nil
  then show ?case by (simp split: if_splits)
next
  case (Cons c cs)
  show ?case
  proof (cases "is_prefix sep (c # cs)")
    case True
    have "b = []" "a = drop (length sep) (c # cs)"
      using Cons.prems unfolding cut_here [OF True] by auto
    then show ?thesis using is_prefix_drop [OF True] by simp
  next
    case False
    then obtain b' where "cut sep cs = Some (b', a)" "b = c # b'"
      using Cons.prems unfolding cut_later [OF False] by (auto split: option.splits)
    then show ?thesis using Cons.IH by simp
  qed
qed

lemma is_prefix_append [simp]: "is_prefix p (p @ r)"
  by (induction p) auto

lemma cut_char_notin:
  assumes "cut [c] s = Some (b, a)"
  shows "c \<notin> set b"
  using assms
proof (induction s arbitrary: b)
  case Nil
  then show ?case by simp
next
  case (Cons x xs)
  show ?case
  proof (cases "x = c")
    case True
    then show ?thesis using Cons.prems by simp
  next
    case False
    then obtain b' where "cut [c] xs = Some (b', a)" "b = x # b'"
      using Cons.prems by (auto split: option.splits)
    then show ?thesis using Cons.IH False by auto
  qed
qed

lemma cut_char_intro:
  assumes "c \<notin> set b"
  shows "cut [c] (b @ c # a) = Some (b, a)"
  using assms by (induction b) auto

text \<open>The separator \<^verbatim>\<open>::\<close>.\<close>

lemma cut_colons_last:
  assumes "cut ''::'' s = Some (b, a)"
  shows "b = [] \<or> last b \<noteq> CHR '':''"
  using assms
proof (induction s arbitrary: b)
  case Nil
  then show ?case by simp
next
  case (Cons x xs)
  show ?case
  proof (cases "is_prefix ''::'' (x # xs)")
    case True
    have "b = []" using Cons.prems unfolding cut_here [OF True] by auto
    then show ?thesis by simp
  next
    case False
    then obtain b' where b': "cut ''::'' xs = Some (b', a)" "b = x # b'"
      using Cons.prems unfolding cut_later [OF False] by (auto split: option.splits)
    show ?thesis
    proof (cases "b' = []")
      case True
      then have "xs = ''::'' @ a" using cut_append [OF b'(1)] by simp
      then have "x \<noteq> CHR '':''" using False by auto
      then show ?thesis using b'(2) True by simp
    next
      case False
      then show ?thesis using Cons.IH [OF b'(1)] b'(2) by simp
    qed
  qed
qed

lemma cut_colons_intro_tid:
  assumes "CHR '':'' \<notin> set t"
  shows "cut ''::'' (t @ ''::'' @ r) = Some (t, r)"
  using assms
proof (induction t)
  case Nil
  then show ?case by simp
next
  case (Cons x xs)
  then show ?case by simp
qed

lemma cut_colons_intro:
  assumes "CHR '':'' \<notin> set p" and "CHR '':'' \<notin> set t" and "t \<noteq> []"
  shows "cut ''::'' (p @ '':'' @ t @ ''::'' @ r) = Some (p @ '':'' @ t, r)"
  using assms
proof (induction p)
  case Nil
  obtain x xs where t: "t = x # xs" using Nil.prems(3) by (cases t) auto
  then have "x \<noteq> CHR '':''" using Nil.prems(2) by auto
  then show ?case using cut_colons_intro_tid [OF Nil.prems(2), of r] t by simp
next
  case (Cons x xs)
  then show ?case by simp
qed

subsection \<open>\<^verbatim>\<open>strings.Split\<close>\<close>

lemma Split1_nonempty: "Split1 s c \<noteq> []"
  by (induction s) (auto split: list.splits)

lemma Split1_no_sep:
  assumes "c \<notin> set s"
  shows "Split1 s c = [s]"
  using assms by (induction s) auto

lemma Split1_intro:
  assumes "c \<notin> set p" and "c \<notin> set t"
  shows "Split1 (p @ c # t) c = [p, t]"
  using assms by (induction p) (auto simp: Split1_no_sep)

lemma Split1_two:
  assumes "Split1 s c = [p, t]"
  shows "s = p @ c # t \<and> c \<notin> set p \<and> c \<notin> set t"
  using assms
proof (induction s arbitrary: p)
  case Nil
  then show ?case by simp
next
  case (Cons x xs)
  show ?case
  proof (cases "x = c")
    case True
    then have p: "p = []" and t: "Split1 xs c = [t]" using Cons.prems by auto
    have "c \<notin> set xs \<and> xs = t"
      using t
    proof (induction xs arbitrary: t)
      case Nil
      then show ?case by simp
    next
      case (Cons y ys)
      then show ?case using Split1_nonempty [of ys c]
        by (auto split: if_splits list.splits)
    qed
    then show ?thesis using True p by auto
  next
    case False
    then obtain p' where "Split1 xs c = [p', t]" "p = x # p'"
      using Cons.prems by (auto split: list.splits)
    then show ?thesis using Cons.IH False by auto
  qed
qed

subsection \<open>The separator \<^verbatim>\<open>" - "\<close>\<close>

lemma cut_dash_intro:
  assumes "noSpaceDash x"
  shows "cut '' - '' (x @ '' - '' @ msg) = Some (x, msg)"
  using assms by (induction x rule: noSpaceDash.induct) auto

lemma noSpaceDash_skip:
  assumes "CHR '' '' \<notin> set xs"
  shows "noSpaceDash (xs @ ys) = noSpaceDash ys"
  using assms
proof (induction xs)
  case Nil
  then show ?case by simp
next
  case (Cons x xs)
  then have x: "x \<noteq> CHR '' ''" and IH: "noSpaceDash (xs @ ys) = noSpaceDash ys" by auto
  show ?case
  proof (cases "xs @ ys")
    case Nil
    then show ?thesis using x by simp
  next
    case (Cons d r)
    then have "noSpaceDash (x # xs @ ys) = noSpaceDash (xs @ ys)" using x by simp
    then show ?thesis using IH by simp
  qed
qed

lemma noSpaceDash_space:
  assumes "ys \<noteq> []"
  shows "noSpaceDash (CHR '' '' # ys) = (hd ys \<noteq> CHR ''-'' \<and> noSpaceDash ys)"
  using assms by (cases ys) auto

subsection \<open>The characters of a rendered time\<close>

lemma digit_char: "n < 10 \<Longrightarrow> isDigit (''0123456789'' ! n)"
proof -
  assume "n < 10"
  then have "''0123456789'' ! n \<in> set ''0123456789''"
    by (intro nth_mem) simp
  then show ?thesis unfolding isDigit_def .
qed

lemma digits_all: "list_all isDigit (digits n)"
proof (induction n rule: digits.induct)
  case (1 n)
  show ?case
  proof (cases "n < 10")
    case True
    then show ?thesis by (subst digits.simps) (simp add: digit_char)
  next
    case False
    then have "list_all isDigit (digits (n div 10))" using 1 by simp
    moreover have "isDigit (''0123456789'' ! (n mod 10))" by (rule digit_char) simp
    ultimately show ?thesis using False by (subst digits.simps) simp
  qed
qed

lemma digits_nonempty: "digits n \<noteq> []"
  by (subst digits.simps) simp

lemma isDigit_not_space: "isDigit c \<Longrightarrow> c \<noteq> CHR '' ''"
  by (auto simp: isDigit_def)

lemma isDigit_not_dash: "isDigit c \<Longrightarrow> c \<noteq> CHR ''-''"
  by (auto simp: isDigit_def)

lemma appendInt_no_space: "CHR '' '' \<notin> set (appendInt x w)"
proof -
  have "CHR '' '' \<notin> set (digits n)" for n
    using digits_all [of n] isDigit_not_space by (auto simp: list_all_iff)
  then show ?thesis by (auto simp: appendInt_def Let_def)
qed

lemma appendInt_hd:
  assumes "0 \<le> x"
  shows "appendInt x w \<noteq> [] \<and> hd (appendInt x w) \<noteq> CHR ''-''"
proof -
  let ?ds = "digits (nat \<bar>x\<bar>)"
  have ne: "?ds \<noteq> []" by (rule digits_nonempty)
  have z: "isDigit (CHR ''0'')" by (simp add: isDigit_def)
  have "list_all isDigit (replicate (w - length ?ds) (CHR ''0'') @ ?ds)"
    using digits_all [of "nat \<bar>x\<bar>"] z by (auto simp: list_all_iff)
  moreover have "replicate (w - length ?ds) (CHR ''0'') @ ?ds \<noteq> []" using ne by simp
  ultimately have "isDigit (hd (replicate (w - length ?ds) (CHR ''0'') @ ?ds))"
    by (metis list_all_iff hd_in_set)
  then show ?thesis using assms ne isDigit_not_dash by (simp add: appendInt_def Let_def)
qed

lemma trimZeros_subset: "set (trimZeros xs) \<subseteq> set xs"
  by (induction xs) (auto simp: Let_def)

lemma appendNano_no_space: "CHR '' '' \<notin> set (appendNano n)"
  using trimZeros_subset [of "appendInt n 9"] appendInt_no_space [of n 9]
  by (auto simp: appendNano_def)

lemma time_String_noSpaceDash:
  assumes "0 \<le> hour t"
  shows "noSpaceDash (time_String t)"
proof -
  let ?date = "appendInt (year t) 4 @ ''-'' @ appendInt (month t) 2 @ ''-'' @ appendInt (day t) 2"
  let ?clockFrac = "appendInt (minute t) 2 @ '':'' @ appendInt (second t) 2 @ appendNano (nsec t)"
  let ?rest = "appendInt (hour t) 2 @ '':'' @ ?clockFrac @ '' +0000 UTC''"
  have ts: "time_String t = ?date @ CHR '' '' # ?rest"
    by (simp add: time_String_def)
  have d: "CHR '' '' \<notin> set ?date" using appendInt_no_space by simp
  have h: "CHR '' '' \<notin> set (appendInt (hour t) 2 @ '':'' @ ?clockFrac)"
    using appendInt_no_space appendNano_no_space by simp
  have "noSpaceDash '' +0000 UTC''" by simp
  then have r: "noSpaceDash ?rest"
    using noSpaceDash_skip [OF h, of "'' +0000 UTC''"] by simp
  have "hd ?rest \<noteq> CHR ''-''" using appendInt_hd [OF assms, of 2] by simp
  then have "noSpaceDash (CHR '' '' # ?rest)" using r noSpaceDash_space [of ?rest] by simp
  then show ?thesis unfolding ts using noSpaceDash_skip [OF d] by simp
qed

lemma time_String_hd:
  assumes "0 \<le> year t"
  shows "time_String t \<noteq> [] \<and> hd (time_String t) \<noteq> CHR ''-''"
  using appendInt_hd [OF assms, of 4] by (simp add: time_String_def)

lemma time_String_last: "last (time_String t) = CHR ''C''"
  by (simp add: time_String_def)

subsection \<open>What \<^verbatim>\<open>time.Parse\<close> accepts\<close>

lemma digitVal_nonneg: "isDigit c \<Longrightarrow> 0 \<le> digitVal c"
  by (auto simp: isDigit_def digitVal_def)

lemma decimal_nonneg: "0 \<le> acc \<Longrightarrow> list_all isDigit cs \<Longrightarrow> 0 \<le> decimal acc cs"
proof (induction cs arbitrary: acc)
  case Nil
  then show ?case by simp
next
  case (Cons c cs)
  then have "0 \<le> acc * 10 + digitVal c" using digitVal_nonneg [of c] by simp
  then show ?case using Cons by simp
qed

lemma isDigit_not_sign: "isDigit c \<Longrightarrow> c \<noteq> CHR ''-'' \<and> c \<noteq> CHR ''+''"
  by (auto simp: isDigit_def)

lemma getYear_Some:
  assumes "getYear v = Some (y, r)"
  shows "0 \<le> y \<and> (\<exists>p. v = p @ r)"
proof -
  have len: "4 \<le> length v" and d: "isDigit (hd v)" and a: "atoi (take 4 v) = Some y"
    and r: "r = drop 4 v"
    using assms by (auto simp: getYear_def split: if_splits option.splits)
  have ne: "take 4 v \<noteq> []" using len by auto
  have hd: "hd (take 4 v) = hd v" using len by (cases v) auto
  have ns: "hd (take 4 v) \<noteq> CHR ''-'' \<and> hd (take 4 v) \<noteq> CHR ''+''"
    using d hd isDigit_not_sign by simp
  have "list_all isDigit (take 4 v) \<and> y = decimal 0 (take 4 v)"
    using a ns ne by (auto simp: atoi_def Let_def split: if_splits)
  then have "0 \<le> y" using decimal_nonneg [of 0 "take 4 v"] by simp
  moreover have "v = take 4 v @ r" using r by simp
  ultimately show ?thesis by blast
qed

lemma getnum_suffix:
  assumes "getnum v f = Some (n, r)"
  shows "\<exists>p. v = p @ r"
  using assms
proof (cases "(v, f)" rule: getnum.cases)
  case (1 fixed)
  then show ?thesis using assms by simp
next
  case (2 c fixed)
  then show ?thesis using assms by (auto split: if_splits)
next
  case (3 c d r' fixed)
  then have "r = d # r' \<or> r = r'" using assms by (auto split: if_splits)
  then show ?thesis
  proof
    assume "r = d # r'"
    then have "v = [c] @ r" using 3 by simp
    then show ?thesis by blast
  next
    assume "r = r'"
    then have "v = [c, d] @ r" using 3 by simp
    then show ?thesis by blast
  qed
qed

lemma skipByte_suffix:
  assumes "skipByte c v = Some r"
  shows "\<exists>p. v = p @ r"
proof (cases "c = CHR '' ''")
  case True
  then have "r = dropWhile (\<lambda>c. c = CHR '' '') v"
    using assms by (auto simp: skipByte_def split: if_splits)
  then have "v = takeWhile (\<lambda>c. c = CHR '' '') v @ r" by simp
  then show ?thesis by blast
next
  case False
  then have "v \<noteq> [] \<and> r = tl v" using assms by (auto simp: skipByte_def split: if_splits)
  then have "v = [hd v] @ r" by simp
  then show ?thesis by blast
qed

lemma getRanged_Some:
  assumes "getRanged v f lo hi = Some (n, r)"
  shows "lo \<le> n \<and> (\<exists>p. v = p @ r)"
proof -
  have "getnum v f = Some (n, r) \<and> lo \<le> n"
    using assms by (auto simp: getRanged_def bind_eq_Some_conv split: if_splits)
  then show ?thesis using getnum_suffix by blast
qed

lemma suffix_chain5:
  assumes "\<exists>p. v = p @ v1" and "\<exists>p. v1 = p @ v2" and "\<exists>p. v2 = p @ v3"
      and "\<exists>p. v3 = p @ v4" and "\<exists>p. v4 = p @ r"
  shows "\<exists>p. v = p @ (r :: string)"
proof -
  obtain p1 p2 p3 p4 p5 where "v = p1 @ v1" "v1 = p2 @ v2" "v2 = p3 @ v3" "v3 = p4 @ v4"
    "v4 = p5 @ r"
    using assms by blast
  then have "v = (p1 @ p2 @ p3 @ p4 @ p5) @ r" by simp
  then show ?thesis by blast
qed

lemma parseDate_chain:
  assumes "getYear v = Some (y, v1)" and "skipByte c1 v1 = Some v2"
      and "getRanged v2 f1 lo hi = Some (mo, v3)" and "skipByte c2 v3 = Some v4"
      and "getnum v4 f2 = Some (d, r)"
  shows "0 \<le> y \<and> (\<exists>p. v = p @ r)"
proof -
  have "\<exists>p. v = p @ r"
    by (rule suffix_chain5 [of v v1 v2 v3 v4 r])
      (use getYear_Some [OF assms(1)] skipByte_suffix [OF assms(2)]
        getRanged_Some [OF assms(3)] skipByte_suffix [OF assms(4)]
        getnum_suffix [OF assms(5)] in blast)+
  then show ?thesis using getYear_Some [OF assms(1)] by blast
qed

lemma parseDate_Some:
  assumes "parseDate v = Some ((y, mo, d), r)"
  shows "0 \<le> y \<and> (\<exists>p. v = p @ r)"
  using assms
  apply (clarsimp simp: parseDate_def bind_eq_Some_conv)
  apply (rule parseDate_chain; assumption)
  done

lemma parseClock_chain:
  assumes "getRanged v f0 0 hi0 = Some (h, v1)" and "skipByte c1 v1 = Some v2"
      and "getRanged v2 f1 lo hi = Some (mi, v3)" and "skipByte c2 v3 = Some v4"
      and "getRanged v4 f2 lo2 hi2 = Some (s, r)"
  shows "0 \<le> h \<and> (\<exists>p. v = p @ r)"
proof -
  have "\<exists>p. v = p @ r"
    by (rule suffix_chain5 [of v v1 v2 v3 v4 r])
      (use getRanged_Some [OF assms(1)] skipByte_suffix [OF assms(2)]
        getRanged_Some [OF assms(3)] skipByte_suffix [OF assms(4)]
        getRanged_Some [OF assms(5)] in blast)+
  then show ?thesis using getRanged_Some [OF assms(1)] by blast
qed

lemma parseClock_Some:
  assumes "parseClock v = Some ((h, mi, s), r)"
  shows "0 \<le> h \<and> (\<exists>p. v = p @ r)"
  using assms
  apply (clarsimp simp: parseClock_def bind_eq_Some_conv)
  apply (rule parseClock_chain; assumption)
  done

lemma atoi_Some:
  assumes "atoi s = Some n"
  shows "list_all isDigit (if s \<noteq> [] \<and> (hd s = CHR ''-'' \<or> hd s = CHR ''+'') then tl s else s)"
proof (rule ccontr)
  assume "\<not> ?thesis"
  then have "atoi s = None" unfolding atoi_def Let_def by (simp only: if_False)
  then show False using assms by simp
qed

lemma atoi_last_digit:
  assumes "atoi s = Some n" and "2 \<le> length s"
  shows "isDigit (last s)"
proof -
  let ?r = "if s \<noteq> [] \<and> (hd s = CHR ''-'' \<or> hd s = CHR ''+'') then tl s else s"
  have all: "list_all isDigit ?r" by (rule atoi_Some [OF assms(1)])
  have tl: "tl s \<noteq> []" using assms(2) by (cases s) auto
  then have s: "s \<noteq> []" by auto
  have lt: "last (tl s) = last s" using tl by (simp add: last_tl)
  have "last s \<in> set ?r"
  proof (cases "s \<noteq> [] \<and> (hd s = CHR ''-'' \<or> hd s = CHR ''+'')")
    case True
    have r: "?r = tl s" using True by (rule if_P)
    have "last (tl s) \<in> set (tl s)" using tl by (rule last_in_set)
    then show ?thesis unfolding r lt .
  next
    case False
    have r: "?r = s" using False by (rule if_not_P)
    have "last s \<in> set s" using s by (rule last_in_set)
    then show ?thesis unfolding r .
  qed
  then show ?thesis using all unfolding list_all_iff by blast
qed

lemma getFrac_Some:
  assumes "getFrac v = Some (ns, r)"
  shows "4 \<le> length v \<and> r = drop 4 v \<and> (\<exists>n. atoi (take 3 (tl v)) = Some n)"
proof -
  have len: "\<not> length v < 4"
  proof
    assume "length v < 4"
    then have "getFrac v = None" unfolding getFrac_def by (simp only: if_True)
    then show False using assms by simp
  qed
  show ?thesis
  proof (cases "atoi (take 3 (tl v))")
    case None
    then have "getFrac v = None" unfolding getFrac_def by (simp split: if_splits)
    then show ?thesis using assms by simp
  next
    case (Some n)
    have "getFrac v = None \<or> getFrac v = Some (n * 1000000, drop 4 v)"
      unfolding getFrac_def Some by (simp split: if_splits)
    then have "r = drop 4 v" using assms by auto
    then show ?thesis using len Some by simp
  qed
qed

lemma getFrac_all:
  assumes "getFrac v = Some (ns, [])"
  shows "v \<noteq> [] \<and> isDigit (last v)"
proof -
  have len: "4 \<le> length v" and d: "[] = drop 4 v"
    using getFrac_Some [OF assms] by blast+
  then have l4: "length v = 4" by simp
  obtain n where a: "atoi (take 3 (tl v)) = Some n"
    using getFrac_Some [OF assms] by blast
  have "take 3 (tl v) = tl v" using l4 by simp
  then have "isDigit (last (tl v))" using atoi_last_digit [OF a] l4 by simp
  moreover have "tl v \<noteq> []" using l4 by (cases v) auto
  ultimately have "isDigit (last v)" by (simp add: last_tl)
  then show ?thesis using l4 by auto
qed

lemma time_Parse_chain:
  assumes "parseDate v = Some ((y, mo, d), v5)" and "skipByte c v5 = Some v6"
      and "parseClock v6 = Some ((h, mi, s), v11)" and "getFrac v11 = Some (ns, [])"
  shows "0 \<le> y \<and> 0 \<le> h \<and> v \<noteq> [] \<and> isDigit (last v)"
proof -
  obtain p1 where "v = p1 @ v5" using parseDate_Some [OF assms(1)] by blast
  moreover obtain p2 where "v5 = p2 @ v6" using skipByte_suffix [OF assms(2)] by blast
  moreover obtain p3 where "v6 = p3 @ v11" using parseClock_Some [OF assms(3)] by blast
  ultimately have v: "v = (p1 @ p2 @ p3) @ v11" by simp
  have f: "v11 \<noteq> [] \<and> isDigit (last v11)" by (rule getFrac_all [OF assms(4)])
  then have "v \<noteq> [] \<and> last v = last v11" using v by simp
  then show ?thesis using f parseDate_Some [OF assms(1)] parseClock_Some [OF assms(3)] by simp
qed

lemma time_Parse_Some:
  assumes "time_Parse v = Some t"
  shows "0 \<le> year t \<and> 0 \<le> hour t \<and> v \<noteq> [] \<and> isDigit (last v)"
  using assms
  apply (clarsimp simp: time_Parse_def bind_eq_Some_conv split: if_splits)
  apply (rule time_Parse_chain; assumption)
  done

lemma time_Parse_time_String: "time_Parse (time_String t) = None"
proof (cases "time_Parse (time_String t)")
  case None
  then show ?thesis .
next
  case (Some u)
  then have "isDigit (last (time_String t))" using time_Parse_Some by blast
  then show ?thesis by (simp add: time_String_last isDigit_def)
qed

subsection \<open>The tokens of a rendered line\<close>

lemma splitLogline_Some:
  assumes "splitLogline lineText = Some (pid, thid, thName, tsText, msg)"
  shows "\<exists>h t nameTs. cut ''::'' lineText = Some (h, t) \<and> Split1 h (CHR '':'') = [pid, thid]
     \<and> cut '' - '' t = Some (nameTs, msg) \<and> cut '' '' nameTs = Some (thName, tsText)"
proof -
  obtain h t where c1: "cut ''::'' lineText = Some (h, t)"
    using assms by (cases "cut ''::'' lineText") (auto simp: splitLogline_def SplitN2_def)
  have r1: "(case Split1 h (CHR '':'') of
             [pid, thid] \<Rightarrow>
               (case SplitN2 t '' - '' of
                  [nameTs, msg] \<Rightarrow>
                    (case SplitN2 nameTs '' '' of
                       [thName, ts] \<Rightarrow> Some (pid, thid, thName, ts, msg)
                     | _ \<Rightarrow> None)
                | _ \<Rightarrow> None)
           | _ \<Rightarrow> None) = Some (pid, thid, thName, tsText, msg)"
    using assms c1 by (simp add: splitLogline_def SplitN2_def)
  then obtain p' t' where s1: "Split1 h (CHR '':'') = [p', t']"
    by (auto split: list.splits)
  obtain nameTs m' where c2: "cut '' - '' t = Some (nameTs, m')"
    using r1 s1 by (cases "cut '' - '' t") (auto simp: SplitN2_def)
  have r2: "(case SplitN2 nameTs '' '' of
                       [thName, ts] \<Rightarrow> Some (p', t', thName, ts, m')
                     | _ \<Rightarrow> None) = Some (pid, thid, thName, tsText, msg)"
    using r1 s1 c2 by (simp add: SplitN2_def)
  obtain n' ts' where c3: "cut '' '' nameTs = Some (n', ts')"
    using r2 by (cases "cut '' '' nameTs") (auto simp: SplitN2_def)
  have "p' = pid \<and> t' = thid \<and> n' = thName \<and> ts' = tsText \<and> m' = msg"
    using r2 c3 by (simp add: SplitN2_def)
  then show ?thesis using c1 s1 c2 c3 by blast
qed

lemma splitLogline_intro:
  assumes "cut ''::'' lineText = Some (h, t)" and "Split1 h (CHR '':'') = [pid, thid]"
      and "cut '' - '' t = Some (nameTs, msg)" and "cut '' '' nameTs = Some (thName, tsText)"
  shows "splitLogline lineText = Some (pid, thid, thName, tsText, msg)"
  using assms by (simp add: splitLogline_def SplitN2_def)

lemma String_split:
  assumes "CHR '':'' \<notin> set (processID ll)" and "CHR '':'' \<notin> set (threadID ll)"
      and "threadID ll \<noteq> []" and "CHR '' '' \<notin> set (threadName ll)"
      and "0 \<le> year (timestamp ll)" and "0 \<le> hour (timestamp ll)"
  shows "splitLogline (String ll)
     = Some (processID ll, threadID ll, threadName ll, time_String (timestamp ll), message ll)"
proof -
  let ?TS = "time_String (timestamp ll)"
  let ?t = "threadName ll @ '' '' @ ?TS @ '' - '' @ message ll"
  let ?nameTs = "threadName ll @ '' '' @ ?TS"
  have s: "String ll = processID ll @ '':'' @ threadID ll @ ''::'' @ ?t"
    by (simp add: String_def)
  have c1: "cut ''::'' (String ll) = Some (processID ll @ '':'' @ threadID ll, ?t)"
    unfolding s by (rule cut_colons_intro [OF assms(1-3)])
  have s1: "Split1 (processID ll @ '':'' @ threadID ll) (CHR '':'') = [processID ll, threadID ll]"
    using Split1_intro [OF assms(1,2)] by simp
  have ts: "noSpaceDash ?TS" by (rule time_String_noSpaceDash [OF assms(6)])
  have hd: "?TS \<noteq> [] \<and> hd ?TS \<noteq> CHR ''-''" by (rule time_String_hd [OF assms(5)])
  have "noSpaceDash (CHR '' '' # ?TS)" using noSpaceDash_space [of ?TS] ts hd by simp
  then have nsd: "noSpaceDash ?nameTs"
    using noSpaceDash_skip [OF assms(4), of "CHR '' '' # ?TS"] by simp
  have "cut '' - '' (?nameTs @ '' - '' @ message ll) = Some (?nameTs, message ll)"
    by (rule cut_dash_intro [OF nsd])
  then have c2: "cut '' - '' ?t = Some (?nameTs, message ll)" by simp
  have c3: "cut '' '' ?nameTs = Some (threadName ll, ?TS)"
    using cut_char_intro [OF assms(4), of ?TS] by simp
  show ?thesis by (rule splitLogline_intro [OF c1 s1 c2 c3])
qed

lemma startOnly_rendered:
  "String startOnly = ''p:t1::n 2020-08-09 18:59:25.2 +0000 UTC - **START**''"
  by (simp add: String_def startOnly_def clock_def time_String_def appendInt_def appendNano_def
      digits.simps)

text \<open>
  Claim C9, as stated, fails.  The line \<^verbatim>\<open>p:t1::n 2020-08-09 18:59:25,200 - **START**\<close>
  parses; the record renders as
  \<^verbatim>\<open>p:t1::n 2020-08-09 18:59:25.2 +0000 UTC - **START**\<close>; and parsing that text
  fails with the wrapped parse error.
\<close>

theorem render_reparse_counterexample:
  "ParseLogline ''p:t1::n 2020-08-09 18:59:25,200 - **START**'' = Inr startOnly
   \<and> String startOnly = ''p:t1::n 2020-08-09 18:59:25.2 +0000 UTC - **START**''
   \<and> ParseLogline ''p:t1::n 2020-08-09 18:59:25.2 +0000 UTC - **START**''
       = Inl LogLineParseErrWrapped"
proof -
  have "time_Parse ''2020-08-09 18:59:25.2 +0000 UTC'' = None"
    by (simp add: parse_defs)
  then have "ParseLogline ''p:t1::n 2020-08-09 18:59:25.2 +0000 UTC - **START**''
       = Inl LogLineParseErrWrapped"
    by (simp add: ParseLogline_def splitLogline_def SplitN2_def)
  then show ?thesis using start_line_parsed startOnly_rendered by simp
qed

text \<open>
  Claim C9, amended.  For every line that \<^verbatim>\<open>ParseLogline\<close> accepts, the rendered text
  splits under the parser's own four splits into the same process id, thread id, thread
  name and message, with the text \<^verbatim>\<open>Time.String\<close> gives for the same timestamp in the
  place of the timestamp; \<^verbatim>\<open>time.Parse\<close> with the input layout rejects that text, so
  parsing the rendered line fails with the wrapped parse error.
\<close>

theorem render_reparse:
  assumes "ParseLogline lineText = Inr ll"
  shows "splitLogline (String ll)
       = Some (processID ll, threadID ll, threadName ll, time_String (timestamp ll), message ll)
     \<and> time_Parse (time_String (timestamp ll)) = None
     \<and> ParseLogline (String ll) = Inl LogLineParseErrWrapped"
proof -
  obtain pid thid thName tsText msg where
    sp: "splitLogline lineText = Some (pid, thid, thName, tsText, msg)"
    using assms by (cases "splitLogline lineText") (auto simp: ParseLogline_def)
  obtain ts where tp: "time_Parse tsText = Some ts"
    using assms sp by (cases "time_Parse tsText") (auto simp: ParseLogline_def)
  have ll: "ll = \<lparr>processID = pid, threadID = thid, threadName = thName,
                    timestamp = ts, message = msg\<rparr>"
    using assms sp tp by (simp add: ParseLogline_def)
  obtain h t nameTs where c1: "cut ''::'' lineText = Some (h, t)"
    and s1: "Split1 h (CHR '':'') = [pid, thid]"
    and c3: "cut '' '' nameTs = Some (thName, tsText)"
    using splitLogline_Some [OF sp] by blast
  have h: "h = pid @ CHR '':'' # thid" and p: "CHR '':'' \<notin> set pid"
    and t: "CHR '':'' \<notin> set thid"
    using Split1_two [OF s1] by blast+
  have "h = [] \<or> last h \<noteq> CHR '':''" by (rule cut_colons_last [OF c1])
  then have tne: "thid \<noteq> []" unfolding h by auto
  have n: "CHR '' '' \<notin> set thName" by (rule cut_char_notin [OF c3])
  have b: "0 \<le> year ts \<and> 0 \<le> hour ts" using time_Parse_Some [OF tp] by blast
  have split: "splitLogline (String ll)
       = Some (processID ll, threadID ll, threadName ll, time_String (timestamp ll), message ll)"
    by (rule String_split) (use p t tne n b in \<open>simp_all add: ll\<close>)
  have np: "time_Parse (time_String (timestamp ll)) = None"
    by (rule time_Parse_time_String)
  have "ParseLogline (String ll) = Inl LogLineParseErrWrapped"
    by (simp add: ParseLogline_def split np)
  then show ?thesis using split np by blast
qed

theorem render_reparse_witness:
  "ParseLogline ''p:t1::n 2020-08-09 18:59:25,200 - **START**'' = Inr startOnly
   \<and> splitLogline (String startOnly)
       = Some (''p'', ''t1'', ''n'', ''2020-08-09 18:59:25.2 +0000 UTC'', ''**START**'')
   \<and> time_Parse ''2020-08-09 18:59:25.2 +0000 UTC'' = None
   \<and> ParseLogline (String startOnly) = Inl LogLineParseErrWrapped"
proof -
  have ts: "time_String (timestamp startOnly) = ''2020-08-09 18:59:25.2 +0000 UTC''"
    by (simp add: startOnly_def clock_def time_String_def appendInt_def appendNano_def
      digits.simps)
  have f: "processID startOnly = ''p''" "threadID startOnly = ''t1''"
    "threadName startOnly = ''n''" "message startOnly = ''**START**''"
    by (simp_all add: startOnly_def)
  show ?thesis
    using render_reparse [OF start_line_parsed] start_line_parsed
    unfolding ts f by simp
qed

section \<open>The line a successful \<^verbatim>\<open>Write\<close> appends\<close>

lemma Write_ok_forms:
  assumes "Write w ll = (None, w')"
  obtains (opened) th fd where "threadsMetadata (slw w) (threadID ll) = Some th"
      "logFd th = Some fd" "message ll \<noteq> threadLogsEndMarker" "w' = appendLine w fd ll"
  | (ended) th fd where "threadsMetadata (slw w) (threadID ll) = Some th"
      "logFd th = Some fd" "message ll = threadLogsEndMarker"
      "w' = setMeta (appendLine w fd ll) (threadID ll)
              (th\<lparr>logsEndTimestamp := timestamp ll, logFd := None\<rparr>)"
  | (new) "threadsMetadata (slw w) (threadID ll) = None"
      "message ll = threadLogsStartMarker"
      "w' = setMeta (appendLine w (threadPath (processID ll) (threadID ll)) ll) (threadID ll)
            \<lparr>processId = processID ll, logsStartTimestamp = timestamp ll,
             logsEndTimestamp = zeroTime,
             logFd = Some (threadPath (processID ll) (threadID ll)),
             logFilepath = threadPath (processID ll) (threadID ll)\<rparr>"
proof (cases rule: Write_cases [of w ll])
  case (closed th)
  then show ?thesis using assms by simp
next
  case (opened th fd)
  note o = opened
  show ?thesis
  proof (cases "message ll = threadLogsEndMarker")
    case True
    then have "w' = setMeta (appendLine w fd ll) (threadID ll)
              (th\<lparr>logsEndTimestamp := timestamp ll, logFd := None\<rparr>)"
      using o(3) assms by simp
    then show ?thesis using ended [OF o(1) o(2) True] by blast
  next
    case False
    then have "w' = appendLine w fd ll" using o(3) assms by simp
    then show ?thesis using that(1) [OF o(1) o(2) False] by blast
  qed
next
  case invalid
  then show ?thesis using assms by simp
next
  case unopenable
  then show ?thesis using assms by simp
next
  case new
  note n = new
  have "w' = setMeta (appendLine w (threadPath (processID ll) (threadID ll)) ll) (threadID ll)
            \<lparr>processId = processID ll, logsStartTimestamp = timestamp ll,
             logsEndTimestamp = zeroTime,
             logFd = Some (threadPath (processID ll) (threadID ll)),
             logFilepath = threadPath (processID ll) (threadID ll)\<rparr>"
    using n(4) assms by simp
  then show ?thesis using that(3) [OF n(1) n(2)] by blast
qed

lemma pathOf_appendLine [simp]: "pathOf (appendLine w p ll) k = pathOf w k"
  by (simp add: pathOf_def)

lemma pathOf_setMeta:
  "pathOf (setMeta w k md) j = (if j = k then Some (logFilepath md) else pathOf w j)"
  by (simp add: pathOf_def)

lemma fdMatchesPath_appendLine [simp]: "fdMatchesPath (appendLine w p ll) = fdMatchesPath w"
  by (simp add: fdMatchesPath_def)

lemma fdMatchesPath_setMeta:
  assumes "fdMatchesPath w" and "logFd md = None \<or> logFd md = Some (logFilepath md)"
  shows "fdMatchesPath (setMeta w k md)"
  using assms unfolding fdMatchesPath_def by auto

lemma fdMatchesPath_fd:
  assumes "fdMatchesPath w" and "threadsMetadata (slw w) k = Some th" and "logFd th = Some fd"
  shows "fd = logFilepath th"
  using assms unfolding fdMatchesPath_def by blast

lemma Write_ok_step:
  assumes "Write w ll = (None, w')" and "fdMatchesPath w"
  shows "fdMatchesPath w'
     \<and> (\<exists>p. pathOf w' (threadID ll) = Some p
          \<and> (\<forall>q. content w' q
                 = (if q = p then content w q @ String ll @ [CHR 0x0A] else content w q)))
     \<and> (\<forall>k. pathOf w k \<noteq> None \<longrightarrow> pathOf w' k = pathOf w k)
     \<and> dom (threadsMetadata (slw w')) = insert (threadID ll) (dom (threadsMetadata (slw w)))"
  using assms(1)
proof (cases rule: Write_ok_forms)
  case (opened th fd)
  have fd: "fd = logFilepath th" by (rule fdMatchesPath_fd [OF assms(2) opened(1,2)])
  have p: "pathOf w (threadID ll) = Some fd" using opened(1) fd by (simp add: pathOf_def)
  have d: "insert (threadID ll) (dom (threadsMetadata (slw w))) = dom (threadsMetadata (slw w))"
    using opened(1) by auto
  show ?thesis
    unfolding opened(4) d using assms(2) p by (simp add: content_appendLine)
next
  case (ended th fd)
  have fd: "fd = logFilepath th" by (rule fdMatchesPath_fd [OF assms(2) ended(1,2)])
  let ?th' = "th\<lparr>logsEndTimestamp := timestamp ll, logFd := None\<rparr>"
  have a: "fdMatchesPath w'"
    unfolding ended(4) by (rule fdMatchesPath_setMeta) (use assms(2) in simp_all)
  have b: "pathOf w' (threadID ll) = Some fd"
    unfolding ended(4) using fd by (simp add: pathOf_setMeta)
  have c: "content w' q = (if q = fd then content w q @ String ll @ [CHR 0x0A] else content w q)"
    for q
    unfolding ended(4) by (simp add: content_appendLine)
  have e: "pathOf w' k = pathOf w k" for k
    unfolding ended(4) using ended(1) fd by (simp add: pathOf_setMeta pathOf_def)
  have d: "dom (threadsMetadata (slw w')) = insert (threadID ll) (dom (threadsMetadata (slw w)))"
    unfolding ended(4) by simp
  show ?thesis using a b c d e by blast
next
  case new
  let ?p = "threadPath (processID ll) (threadID ll)"
  have a: "fdMatchesPath w'"
    unfolding new(3) by (rule fdMatchesPath_setMeta) (use assms(2) in simp_all)
  have b: "pathOf w' (threadID ll) = Some ?p"
    unfolding new(3) by (simp add: pathOf_setMeta)
  have c: "content w' q = (if q = ?p then content w q @ String ll @ [CHR 0x0A] else content w q)"
    for q
    unfolding new(3) by (simp add: content_appendLine)
  have e: "pathOf w k \<noteq> None \<longrightarrow> pathOf w' k = pathOf w k" for k
    unfolding new(3) using new(1) by (auto simp: pathOf_setMeta pathOf_def)
  have d: "dom (threadsMetadata (slw w')) = insert (threadID ll) (dom (threadsMetadata (slw w)))"
    unfolding new(3) by simp
  show ?thesis using a b c d e by blast
qed

lemma fresh_fdMatchesPath: "fdMatchesPath freshWorld"
  by (simp add: fdMatchesPath_def freshWorld_def NewLogWriter_def)

lemma Write_startOnly:
  "Write freshWorld startOnly
     = (None, setMeta (appendLine freshWorld ''mergedlogs/p-t1.log'' startOnly) ''t1''
               (openSegment ''p'' ''t1'' (clock 18 59 25 200)))"
proof -
  have a: "threadsMetadata (slw freshWorld) (threadID startOnly) = None"
    by (simp add: freshWorld_def NewLogWriter_def)
  have b: "message startOnly = threadLogsStartMarker"
    by (simp add: startOnly_def threadLogsStartMarker_def)
  have c: "\<not> openFails freshWorld (threadPath (processID startOnly) (threadID startOnly))"
    by (simp add: freshWorld_def)
  show ?thesis
    unfolding Write_new [OF a b c]
    by (simp add: startOnly_def openSegment_def threadPath_simple)
qed

lemma content_fresh: "content freshWorld p = []"
  by (simp add: content_def freshWorld_def)

text \<open>
  Claim C3, as stated, fails in the format of the timestamp.  The line
  \<^verbatim>\<open>p:t1::n 2020-08-09 18:59:25,200 - **START**\<close> parses to \<open>startOnly\<close>; writing
  that record to a new writer appends
  \<^verbatim>\<open>p:t1::n 2020-08-09 18:59:25.2 +0000 UTC - **START**\<close> and a line feed to the file of
  the thread.  The timestamp was read from \<^verbatim>\<open>2020-08-09 18:59:25,200\<close>; the text written
  for it is not of that format and \<^verbatim>\<open>time.Parse\<close> with the input layout rejects it.
\<close>

theorem appended_line_format_counterexample:
  "ParseLogline ''p:t1::n 2020-08-09 18:59:25,200 - **START**'' = Inr startOnly
   \<and> fst (Write freshWorld startOnly) = None
   \<and> content (snd (Write freshWorld startOnly)) ''mergedlogs/p-t1.log''
       = ''p:t1::n 2020-08-09 18:59:25.2 +0000 UTC - **START**'' @ [CHR 0x0A]
   \<and> time_Parse ''2020-08-09 18:59:25,200'' = Some (timestamp startOnly)
   \<and> time_Parse ''2020-08-09 18:59:25.2 +0000 UTC'' = None"
proof -
  have c: "content (snd (Write freshWorld startOnly)) ''mergedlogs/p-t1.log''
       = ''p:t1::n 2020-08-09 18:59:25.2 +0000 UTC - **START**'' @ [CHR 0x0A]"
    unfolding Write_startOnly
    by (simp add: content_appendLine content_fresh startOnly_rendered)
  have t1: "time_Parse ''2020-08-09 18:59:25,200'' = Some (timestamp startOnly)"
    by (simp add: parse_defs startOnly_def clock_def)
  have t2: "time_Parse ''2020-08-09 18:59:25.2 +0000 UTC'' = None"
    by (simp add: parse_defs)
  show ?thesis using start_line_parsed c t1 t2 by (simp add: Write_startOnly)
qed

text \<open>
  Claim C3, amended.  In a world whose open files are those of the recorded paths, a
  \<^verbatim>\<open>Write\<close> that returns no error appends to the file of the record's thread, and to no
  other file, the process id, a colon, the thread id, two colons, the thread name, a
  space, the text of the timestamp, \<^verbatim>\<open>" - "\<close>, the message and a line feed.  The text
  of the timestamp is that of \<^verbatim>\<open>Time.String\<close>: year, month and day joined by dashes, a
  space, hour, minute and second joined by colons, a period and the fraction of the
  second without its trailing zeros (nothing for a whole second), and \<^verbatim>\<open>" +0000 UTC"\<close>.
  \<^verbatim>\<open>time.Parse\<close> with the layout of the input rejects that text.
\<close>

theorem appended_line_format:
  assumes "Write w ll = (None, w')" and "fdMatchesPath w"
  shows "(\<exists>p. pathOf w' (threadID ll) = Some p
          \<and> content w' p
              = content w p @ processID ll @ '':'' @ threadID ll @ ''::'' @ threadName ll
                @ '' '' @ time_String (timestamp ll) @ '' - '' @ message ll @ [CHR 0x0A]
          \<and> (\<forall>q. q \<noteq> p \<longrightarrow> content w' q = content w q))
     \<and> time_String (timestamp ll)
         = appendInt (year (timestamp ll)) 4 @ ''-'' @ appendInt (month (timestamp ll)) 2
           @ ''-'' @ appendInt (day (timestamp ll)) 2 @ '' ''
           @ appendInt (hour (timestamp ll)) 2 @ '':'' @ appendInt (minute (timestamp ll)) 2
           @ '':'' @ appendInt (second (timestamp ll)) 2 @ appendNano (nsec (timestamp ll))
           @ '' +0000 UTC''
     \<and> time_Parse (time_String (timestamp ll)) = None"
proof -
  obtain p where p: "pathOf w' (threadID ll) = Some p"
    and c: "\<forall>q. content w' q
                 = (if q = p then content w q @ String ll @ [CHR 0x0A] else content w q)"
    using Write_ok_step [OF assms] by blast
  have 1: "content w' p
              = content w p @ processID ll @ '':'' @ threadID ll @ ''::'' @ threadName ll
                @ '' '' @ time_String (timestamp ll) @ '' - '' @ message ll @ [CHR 0x0A]"
    using c by (simp add: String_def)
  have 2: "\<forall>q. q \<noteq> p \<longrightarrow> content w' q = content w q" using c by simp
  have 3: "time_Parse (time_String (timestamp ll)) = None" by (rule time_Parse_time_String)
  show ?thesis using p 1 2 3 by (auto simp: time_String_def)
qed


theorem appended_line_format_witness:
  "Write freshWorld startOnly
     = (None, setMeta (appendLine freshWorld ''mergedlogs/p-t1.log'' startOnly) ''t1''
               (openSegment ''p'' ''t1'' (clock 18 59 25 200)))
   \<and> fdMatchesPath freshWorld
   \<and> pathOf (setMeta (appendLine freshWorld ''mergedlogs/p-t1.log'' startOnly) ''t1''
               (openSegment ''p'' ''t1'' (clock 18 59 25 200))) ''t1''
       = Some ''mergedlogs/p-t1.log''
   \<and> content (setMeta (appendLine freshWorld ''mergedlogs/p-t1.log'' startOnly) ''t1''
               (openSegment ''p'' ''t1'' (clock 18 59 25 200))) ''mergedlogs/p-t1.log''
       = ''p:t1::n 2020-08-09 18:59:25.2 +0000 UTC - **START**'' @ [CHR 0x0A]
   \<and> time_String (timestamp startOnly) = ''2020-08-09 18:59:25.2 +0000 UTC''
   \<and> time_Parse ''2020-08-09 18:59:25.2 +0000 UTC'' = None"
proof -
  let ?w' = "setMeta (appendLine freshWorld ''mergedlogs/p-t1.log'' startOnly) ''t1''
               (openSegment ''p'' ''t1'' (clock 18 59 25 200))"
  have ts: "time_String (timestamp startOnly) = ''2020-08-09 18:59:25.2 +0000 UTC''"
    by (simp add: startOnly_def clock_def time_String_def appendInt_def appendNano_def
      digits.simps)
  have f: "processID startOnly = ''p''" "threadID startOnly = ''t1''"
    "threadName startOnly = ''n''" "message startOnly = ''**START**''"
    by (simp_all add: startOnly_def)
  have po: "pathOf ?w' ''t1'' = Some ''mergedlogs/p-t1.log''"
    by (simp add: pathOf_setMeta openSegment_def threadPath_simple)
  note inst = appended_line_format [OF Write_startOnly fresh_fdMatchesPath]
  have np: "time_Parse ''2020-08-09 18:59:25.2 +0000 UTC'' = None"
    using inst unfolding ts by blast
  obtain p where p: "pathOf ?w' (threadID startOnly) = Some p"
    and c: "content ?w' p
              = content freshWorld p @ processID startOnly @ '':'' @ threadID startOnly @ ''::''
                @ threadName startOnly @ '' '' @ time_String (timestamp startOnly) @ '' - ''
                @ message startOnly @ [CHR 0x0A]"
    using inst by blast
  have "p = ''mergedlogs/p-t1.log''" using p po unfolding f by simp
  then have co: "content ?w' ''mergedlogs/p-t1.log''
       = ''p:t1::n 2020-08-09 18:59:25.2 +0000 UTC - **START**'' @ [CHR 0x0A]"
    using c unfolding f ts by (simp add: content_fresh)
  show ?thesis using Write_startOnly fresh_fdMatchesPath po co ts np by blast
qed

section \<open>Demultiplexing\<close>

lemma writeAll_Cons:
  assumes "Write w ll = (e, w1)"
  shows "fst (writeAll w (ll # lls)) = e # fst (writeAll w1 lls)"
    and "snd (writeAll w (ll # lls)) = snd (writeAll w1 lls)"
  using assms by (simp_all split: prod.splits)

lemma writeAll_ok:
  assumes "list_all (\<lambda>e. e = None) (fst (writeAll w lls))" and "fdMatchesPath w"
  shows "fdMatchesPath (snd (writeAll w lls))
     \<and> (\<forall>k. pathOf w k \<noteq> None \<longrightarrow> pathOf (snd (writeAll w lls)) k = pathOf w k)
     \<and> dom (threadsMetadata (slw (snd (writeAll w lls))))
         = dom (threadsMetadata (slw w)) \<union> threadID ` set lls
     \<and> (\<forall>q. content (snd (writeAll w lls)) q
           = content w q @ concat (map (\<lambda>ll. String ll @ [CHR 0x0A])
               (filter (\<lambda>ll. pathOf (snd (writeAll w lls)) (threadID ll) = Some q) lls)))"
  using assms
proof (induction lls arbitrary: w)
  case Nil
  then show ?case by simp
next
  case (Cons ll lls)
  obtain e w1 where W: "Write w ll = (e, w1)" by (cases "Write w ll")
  let ?w' = "snd (writeAll w1 lls)"
  have fstc: "fst (writeAll w (ll # lls)) = e # fst (writeAll w1 lls)"
    and sndc: "snd (writeAll w (ll # lls)) = ?w'"
    using writeAll_Cons [OF W] by blast+
  have e: "e = None" and rest: "list_all (\<lambda>e. e = None) (fst (writeAll w1 lls))"
    using Cons.prems(1) unfolding fstc by simp_all
  have W': "Write w ll = (None, w1)" using W e by simp
  note step = Write_ok_step [OF W' Cons.prems(2)]
  have inv1: "fdMatchesPath w1" using step by blast
  obtain p1 where p1: "pathOf w1 (threadID ll) = Some p1"
    and c1: "\<forall>q. content w1 q
                 = (if q = p1 then content w q @ String ll @ [CHR 0x0A] else content w q)"
    using step by blast
  have st1: "\<forall>k. pathOf w k \<noteq> None \<longrightarrow> pathOf w1 k = pathOf w k" using step by blast
  have d1: "dom (threadsMetadata (slw w1)) = insert (threadID ll) (dom (threadsMetadata (slw w)))"
    using step by blast
  note IH = Cons.IH [OF rest inv1]
  have inv: "fdMatchesPath ?w'" using IH by blast
  have st2: "\<forall>k. pathOf w1 k \<noteq> None \<longrightarrow> pathOf ?w' k = pathOf w1 k" using IH by blast
  have d2: "dom (threadsMetadata (slw ?w')) = dom (threadsMetadata (slw w1)) \<union> threadID ` set lls"
    using IH by blast
  have c2: "\<forall>q. content ?w' q
           = content w1 q @ concat (map (\<lambda>ll. String ll @ [CHR 0x0A])
               (filter (\<lambda>ll. pathOf ?w' (threadID ll) = Some q) lls))"
    using IH by blast
  have st: "\<forall>k. pathOf w k \<noteq> None \<longrightarrow> pathOf ?w' k = pathOf w k"
  proof (intro allI impI)
    fix k assume a: "pathOf w k \<noteq> None"
    then have b: "pathOf w1 k = pathOf w k" using st1 by blast
    then have "pathOf w1 k \<noteq> None" using a by simp
    then have "pathOf ?w' k = pathOf w1 k" using st2 by blast
    then show "pathOf ?w' k = pathOf w k" using b by simp
  qed
  have d: "dom (threadsMetadata (slw ?w'))
      = dom (threadsMetadata (slw w)) \<union> threadID ` set (ll # lls)"
    unfolding d2 d1 by auto
  have pl: "pathOf ?w' (threadID ll) = Some p1" using st2 p1 by simp
  have c: "\<forall>q. content ?w' q
           = content w q @ concat (map (\<lambda>ll. String ll @ [CHR 0x0A])
               (filter (\<lambda>ll. pathOf ?w' (threadID ll) = Some q) (ll # lls)))"
  proof
    fix q
    show "content ?w' q
           = content w q @ concat (map (\<lambda>ll. String ll @ [CHR 0x0A])
               (filter (\<lambda>ll. pathOf ?w' (threadID ll) = Some q) (ll # lls)))"
    proof (cases "q = p1")
      case True
      then show ?thesis using c1 c2 pl by simp
    next
      case False
      then show ?thesis using c1 c2 pl by auto
    qed
  qed
  show ?case unfolding sndc using inv st d c by blast
qed

lemma Write_new_path:
  assumes "Write w ll = (None, w')" and "pathOf w (threadID ll) = None"
  shows "pathOf w' (threadID ll) = Some (threadPath (processID ll) (threadID ll))"
  using assms(1)
proof (cases rule: Write_ok_forms)
  case (opened th fd)
  then show ?thesis using assms(2) by (simp add: pathOf_def)
next
  case (ended th fd)
  then show ?thesis using assms(2) by (simp add: pathOf_def)
next
  case new
  show ?thesis unfolding new(3) by (simp add: pathOf_setMeta)
qed

lemma pathOf_None_iff: "pathOf w k = None \<longleftrightarrow> k \<notin> dom (threadsMetadata (slw w))"
  by (auto simp: pathOf_def)

lemma writeAll_first_path:
  assumes "list_all (\<lambda>e. e = None) (fst (writeAll w lls))" and "fdMatchesPath w"
      and "pathOf w k = None" and "k \<in> threadID ` set lls"
  shows "pathOf (snd (writeAll w lls)) k
     = Some (threadPath (processID (hd (filter (\<lambda>ll. threadID ll = k) lls))) k)"
  using assms
proof (induction lls arbitrary: w)
  case Nil
  then show ?case by simp
next
  case (Cons ll lls)
  obtain e w1 where W: "Write w ll = (e, w1)" by (cases "Write w ll")
  let ?w' = "snd (writeAll w1 lls)"
  have fstc: "fst (writeAll w (ll # lls)) = e # fst (writeAll w1 lls)"
    and sndc: "snd (writeAll w (ll # lls)) = ?w'"
    using writeAll_Cons [OF W] by blast+
  have e: "e = None" and rest: "list_all (\<lambda>e. e = None) (fst (writeAll w1 lls))"
    using Cons.prems(1) unfolding fstc by simp_all
  have W': "Write w ll = (None, w1)" using W e by simp
  note step = Write_ok_step [OF W' Cons.prems(2)]
  have inv1: "fdMatchesPath w1" using step by blast
  have d1: "dom (threadsMetadata (slw w1)) = insert (threadID ll) (dom (threadsMetadata (slw w)))"
    using step by blast
  show ?case
  proof (cases "threadID ll = k")
    case True
    have "pathOf w1 k = Some (threadPath (processID ll) k)"
      using Write_new_path [OF W'] Cons.prems(3) True by simp
    moreover have "\<forall>j. pathOf w1 j \<noteq> None \<longrightarrow> pathOf ?w' j = pathOf w1 j"
      using writeAll_ok [OF rest inv1] by blast
    ultimately have "pathOf ?w' k = Some (threadPath (processID ll) k)" by simp
    then show ?thesis unfolding sndc using True by simp
  next
    case False
    have "k \<notin> dom (threadsMetadata (slw w))" using Cons.prems(3) pathOf_None_iff by blast
    then have "k \<notin> dom (threadsMetadata (slw w1))" unfolding d1 using False by auto
    then have n1: "pathOf w1 k = None" using pathOf_None_iff by blast
    have k: "k \<in> threadID ` set lls" using Cons.prems(4) False by auto
    show ?thesis unfolding sndc using Cons.IH [OF rest inv1 n1 k] False by simp
  qed
qed

lemmas run_defs = logRecord_def Write_def initialize_def writeLogLine_def setMeta_def
  freshWorld_def NewLogWriter_def threadLogsStartMarker_def threadLogsEndMarker_def Let_def
  filepath_Join_def mergeLogFilePath_def mergeLogFileExtension_def Clean_def cleanStep_def
  content_def pathOf_def

lemma colliding_run:
  "fst (writeAll freshWorld collidingRecords) = [None, None]"
  "pathOf (snd (writeAll freshWorld collidingRecords)) ''c'' = Some ''mergedlogs/a-b-c.log''"
  "pathOf (snd (writeAll freshWorld collidingRecords)) ''b-c'' = Some ''mergedlogs/a-b-c.log''"
  "content (snd (writeAll freshWorld collidingRecords)) ''mergedlogs/a-b-c.log''
     = concat (map (\<lambda>ll. String ll @ [CHR 0x0A]) collidingRecords)"
  by (simp_all add: collidingRecords_def run_defs)

lemma late_run:
  "fst (writeAll freshWorld lateRecords) = [None, None, Some (WriteErr ''mergedlogs/p-t1.log'')]"
  "pathOf (snd (writeAll freshWorld lateRecords)) ''t1'' = Some ''mergedlogs/p-t1.log''"
  "content (snd (writeAll freshWorld lateRecords)) ''mergedlogs/p-t1.log''
     = concat (map (\<lambda>ll. String ll @ [CHR 0x0A]) (take 2 lateRecords))"
  by (simp_all add: lateRecords_def run_defs)

text \<open>
  Claim C4, as stated, fails.  The two records of \<open>collidingRecords\<close> start the threads
  \<open>c\<close> and \<open>b-c\<close>; both writes succeed, both threads get the file
  \<^verbatim>\<open>mergedlogs/a-b-c.log\<close>, and the file of thread \<open>c\<close> holds the record of thread
  \<open>b-c\<close> as well.  The three records of \<open>lateRecords\<close> belong to one thread and begin
  with its start marker; the write of the record after the end marker returns an error,
  and the file of the thread holds the first two records only.
\<close>

theorem demultiplexing_counterexample:
  "fst (writeAll freshWorld collidingRecords) = [None, None]
   \<and> map threadID collidingRecords = [''c'', ''b-c'']
   \<and> map message collidingRecords = [threadLogsStartMarker, threadLogsStartMarker]
   \<and> pathOf (snd (writeAll freshWorld collidingRecords)) ''c'' = Some ''mergedlogs/a-b-c.log''
   \<and> content (snd (writeAll freshWorld collidingRecords)) ''mergedlogs/a-b-c.log''
       = concat (map (\<lambda>ll. String ll @ [CHR 0x0A]) collidingRecords)
   \<and> concat (map (\<lambda>ll. String ll @ [CHR 0x0A]) collidingRecords)
       \<noteq> concat (map (\<lambda>ll. String ll @ [CHR 0x0A])
            (filter (\<lambda>ll. threadID ll = ''c'') collidingRecords))
   \<and> fst (writeAll freshWorld lateRecords)
       = [None, None, Some (WriteErr ''mergedlogs/p-t1.log'')]
   \<and> map threadID lateRecords = [''t1'', ''t1'', ''t1'']
   \<and> message (hd lateRecords) = threadLogsStartMarker
   \<and> pathOf (snd (writeAll freshWorld lateRecords)) ''t1'' = Some ''mergedlogs/p-t1.log''
   \<and> content (snd (writeAll freshWorld lateRecords)) ''mergedlogs/p-t1.log''
       = concat (map (\<lambda>ll. String ll @ [CHR 0x0A]) (take 2 lateRecords))
   \<and> concat (map (\<lambda>ll. String ll @ [CHR 0x0A]) (take 2 lateRecords))
       \<noteq> concat (map (\<lambda>ll. String ll @ [CHR 0x0A])
            (filter (\<lambda>ll. threadID ll = ''t1'') lateRecords))"
proof -
  have a: "map threadID collidingRecords = [''c'', ''b-c'']"
    "map message collidingRecords = [threadLogsStartMarker, threadLogsStartMarker]"
    by (simp_all add: collidingRecords_def logRecord_def threadLogsStartMarker_def)
  have b: "concat (map (\<lambda>ll. String ll @ [CHR 0x0A]) collidingRecords)
       \<noteq> concat (map (\<lambda>ll. String ll @ [CHR 0x0A])
            (filter (\<lambda>ll. threadID ll = ''c'') collidingRecords))"
    by (simp add: collidingRecords_def logRecord_def)
  have c: "map threadID lateRecords = [''t1'', ''t1'', ''t1'']"
    "message (hd lateRecords) = threadLogsStartMarker"
    by (simp_all add: lateRecords_def logRecord_def threadLogsStartMarker_def)
  have d: "concat (map (\<lambda>ll. String ll @ [CHR 0x0A]) (take 2 lateRecords))
       \<noteq> concat (map (\<lambda>ll. String ll @ [CHR 0x0A])
            (filter (\<lambda>ll. threadID ll = ''t1'') lateRecords))"
    by (simp add: lateRecords_def logRecord_def)
  show ?thesis using colliding_run late_run a b c d by blast
qed

lemma peak_run:
  "fst (writeAll freshWorld peakRecords) = [None, None, None, None, None, None]"
  "pathOf (snd (writeAll freshWorld peakRecords)) ''t1'' = Some ''mergedlogs/p-t1.log''"
  "pathOf (snd (writeAll freshWorld peakRecords)) ''t2'' = Some ''mergedlogs/p-t2.log''"
  "pathOf (snd (writeAll freshWorld peakRecords)) ''t3'' = Some ''mergedlogs/p-t3.log''"
  by (simp_all add: peakRecords_def run_defs)

text \<open>
  Claim C4, amended.  Let a sequence of records be written in their order of arrival to
  a new writer, every \<^verbatim>\<open>Write\<close> returning no error, and let the threads of the sequence
  have pairwise different paths.  Then the file of every thread of the sequence, which
  lies at the path made from the process id of the thread's first record and the thread
  id, holds what it held before followed by the rendered lines of exactly the records of
  that thread, in their order of arrival.
\<close>

theorem demultiplexing:
  assumes "threadsMetadata (slw w0) = Map.empty"
      and "list_all (\<lambda>e. e = None) (fst (writeAll w0 lls))"
      and "inj_on (pathOf (snd (writeAll w0 lls))) (threadID ` set lls)"
      and "k \<in> threadID ` set lls"
  shows "\<exists>p. pathOf (snd (writeAll w0 lls)) k = Some p
     \<and> p = threadPath (processID (hd (filter (\<lambda>ll. threadID ll = k) lls))) k
     \<and> content (snd (writeAll w0 lls)) p
         = content w0 p @ concat (map (\<lambda>ll. String ll @ [CHR 0x0A])
             (filter (\<lambda>ll. threadID ll = k) lls))"
proof -
  let ?w = "snd (writeAll w0 lls)"
  have inv0: "fdMatchesPath w0" using assms(1) by (simp add: fdMatchesPath_def)
  have n0: "pathOf w0 k = None" using assms(1) by (simp add: pathOf_def)
  let ?p = "threadPath (processID (hd (filter (\<lambda>ll. threadID ll = k) lls))) k"
  have p: "pathOf ?w k = Some ?p"
    by (rule writeAll_first_path [OF assms(2) inv0 n0 assms(4)])
  have c: "content ?w ?p
           = content w0 ?p @ concat (map (\<lambda>ll. String ll @ [CHR 0x0A])
               (filter (\<lambda>ll. pathOf ?w (threadID ll) = Some ?p) lls))"
    using writeAll_ok [OF assms(2) inv0] by blast
  have "(pathOf ?w (threadID ll) = Some ?p) = (threadID ll = k)" if "ll \<in> set lls" for ll
  proof
    assume "pathOf ?w (threadID ll) = Some ?p"
    then have "pathOf ?w (threadID ll) = pathOf ?w k" using p by simp
    moreover have "threadID ll \<in> threadID ` set lls" using that by simp
    ultimately show "threadID ll = k" using assms(3,4) by (meson inj_onD)
  next
    assume "threadID ll = k"
    then show "pathOf ?w (threadID ll) = Some ?p" using p by simp
  qed
  then have "filter (\<lambda>ll. pathOf ?w (threadID ll) = Some ?p) lls
      = filter (\<lambda>ll. threadID ll = k) lls"
    by (intro filter_cong) auto
  then show ?thesis using p c by simp
qed

theorem demultiplexing_witness:
  "threadsMetadata (slw freshWorld) = Map.empty
   \<and> list_all (\<lambda>e. e = None) (fst (writeAll freshWorld peakRecords))
   \<and> inj_on (pathOf (snd (writeAll freshWorld peakRecords))) (threadID ` set peakRecords)
   \<and> ''t2'' \<in> threadID ` set peakRecords
   \<and> pathOf (snd (writeAll freshWorld peakRecords)) ''t2'' = Some ''mergedlogs/p-t2.log''
   \<and> content (snd (writeAll freshWorld peakRecords)) ''mergedlogs/p-t2.log''
       = String (logRecord ''p'' ''t2'' (clock 18 0 2 0) ''**START**'') @ [CHR 0x0A]
         @ String (logRecord ''p'' ''t2'' (clock 18 0 8 0) ''**END**'') @ [CHR 0x0A]"
proof -
  let ?w = "snd (writeAll freshWorld peakRecords)"
  have h1: "threadsMetadata (slw freshWorld) = Map.empty"
    by (simp add: freshWorld_def NewLogWriter_def)
  have h2: "list_all (\<lambda>e. e = None) (fst (writeAll freshWorld peakRecords))"
    unfolding peak_run by simp
  have ids: "threadID ` set peakRecords = {''t1'', ''t2'', ''t3''}"
    by (auto simp: peakRecords_def logRecord_def)
  have h3: "inj_on (pathOf ?w) (threadID ` set peakRecords)"
    unfolding ids by (simp add: peak_run)
  have h4: "''t2'' \<in> threadID ` set peakRecords" unfolding ids by simp
  have f: "filter (\<lambda>ll. threadID ll = ''t2'') peakRecords
      = [logRecord ''p'' ''t2'' (clock 18 0 2 0) ''**START**'',
         logRecord ''p'' ''t2'' (clock 18 0 8 0) ''**END**'']"
    by (simp add: peakRecords_def logRecord_def)
  obtain p where p: "pathOf ?w ''t2'' = Some p"
    and c: "content ?w p
         = content freshWorld p @ concat (map (\<lambda>ll. String ll @ [CHR 0x0A])
             (filter (\<lambda>ll. threadID ll = ''t2'') peakRecords))"
    using demultiplexing [OF h1 h2 h3 h4] by blast
  have "p = ''mergedlogs/p-t2.log''" using p peak_run(3) by simp
  then have "content ?w ''mergedlogs/p-t2.log''
       = String (logRecord ''p'' ''t2'' (clock 18 0 2 0) ''**START**'') @ [CHR 0x0A]
         @ String (logRecord ''p'' ''t2'' (clock 18 0 8 0) ''**END**'') @ [CHR 0x0A]"
    using c unfolding f by (simp add: content_fresh)
  then show ?thesis using h1 h2 h3 h4 peak_run(3) by blast
qed

end
